theory Spec2Isabelle
  imports Main
begin

section \<open>Python strings\<close>

text \<open>
  Texts are Python \<^verbatim>\<open>str\<close> values over the ASCII range: a \<^typ>\<open>string\<close> is the list of
  the code points of the text, each below 128.  The character classes below are the ones
  \<^verbatim>\<open>str.split\<close>, \<^verbatim>\<open>str.strip\<close>, \<^verbatim>\<open>str.lower\<close> and the regular expression classes
  \<^verbatim>\<open>\w\<close> and \<^verbatim>\<open>\s\<close> use on that range.
\<close>

definition is_space :: "char \<Rightarrow> bool" where
  "is_space c \<longleftrightarrow>
     c \<in> set [CHR 0x09, CHR 0x0A, CHR 0x0B, CHR 0x0C, CHR 0x0D,
                CHR 0x1C, CHR 0x1D, CHR 0x1E, CHR 0x1F, CHR '' '']"

definition is_word :: "char \<Rightarrow> bool" where
  "is_word c \<longleftrightarrow>
     c \<in> set ''abcdefghijklmnopqrstuvwxyzABCDEFGHIJKLMNOPQRSTUVWXYZ0123456789_''"

definition lower_char :: "char \<Rightarrow> char" where
  "lower_char c =
     (case map_of (zip ''ABCDEFGHIJKLMNOPQRSTUVWXYZ'' ''abcdefghijklmnopqrstuvwxyz'') c of
        Some d \<Rightarrow> d
      | None \<Rightarrow> c)"

definition lower :: "string \<Rightarrow> string" where
  "lower s = map lower_char s"

definition strip :: "string \<Rightarrow> string" where
  "strip s = rev (dropWhile is_space (rev (dropWhile is_space s)))"

text \<open>\<^verbatim>\<open>s.split()\<close>: the maximal runs of non-whitespace characters, in order.\<close>

fun split_from :: "string \<Rightarrow> string \<Rightarrow> string list" where
  "split_from cur [] = (if cur = [] then [] else [cur])"
| "split_from cur (c # cs) =
     (if is_space c then (if cur = [] then [] else [cur]) @ split_from [] cs
      else split_from (cur @ [c]) cs)"

definition split :: "string \<Rightarrow> string list" where
  "split s = split_from [] s"

text \<open>\<^verbatim>\<open>sep.join(xs)\<close>.\<close>

fun join :: "string \<Rightarrow> string list \<Rightarrow> string" where
  "join sep [] = []"
| "join sep [x] = x"
| "join sep (x # y # ys) = x @ sep @ join sep (y # ys)"

text \<open>\<^verbatim>\<open>s.startswith(p)\<close> and the substring test \<^verbatim>\<open>p in s\<close>.\<close>

definition startswith :: "string \<Rightarrow> string \<Rightarrow> bool" where
  "startswith s p \<longleftrightarrow> take (length p) s = p"

fun py_in :: "string \<Rightarrow> string \<Rightarrow> bool" where
  "py_in p [] \<longleftrightarrow> p = []"
| "py_in p (c # cs) \<longleftrightarrow> startswith (c # cs) p \<or> py_in p cs"

text \<open>
  \<^verbatim>\<open>s.replace(old, new)\<close>: the occurrences of \<open>old\<close> are found from left to right and do
  not overlap; what has been written is not scanned again.
\<close>

fun replace :: "string \<Rightarrow> string \<Rightarrow> string \<Rightarrow> string" where
  "replace old new [] = (if old = [] then new else [])"
| "replace old new (c # cs) =
     (if old = [] then new @ c # replace old new cs
      else if startswith (c # cs) old then new @ replace old new (drop (length old) (c # cs))
      else c # replace old new cs)"

section \<open>Text normalisation\<close>

text \<open>\<^verbatim>\<open>re.sub(r'[^\w\s]', ' ', text)\<close>.\<close>

definition sub_special :: "string \<Rightarrow> string" where
  "sub_special s = map (\<lambda>c. if is_word c \<or> is_space c then c else CHR '' '') s"

text \<open>The dictionary \<^verbatim>\<open>contractions\<close> of \<^verbatim>\<open>normalize_text\<close>, in the order it is written.\<close>

definition contractions :: "(string \<times> string) list" where
  "contractions =
    [(''what's'', ''what is''),
     (''what're'', ''what are''),
     (''who's'', ''who is''),
     (''where's'', ''where is''),
     (''when's'', ''when is''),
     (''why's'', ''why is''),
     (''how's'', ''how is''),
     (''it's'', ''it is''),
     (''that's'', ''that is''),
     (''there's'', ''there is''),
     (''here's'', ''here is''),
     (''i'm'', ''i am''),
     (''you're'', ''you are''),
     (''we're'', ''we are''),
     (''they're'', ''they are''),
     (''i've'', ''i have''),
     (''you've'', ''you have''),
     (''we've'', ''we have''),
     (''they've'', ''they have''),
     (''i'll'', ''i will''),
     (''you'll'', ''you will''),
     (''we'll'', ''we will''),
     (''they'll'', ''they will''),
     (''don't'', ''do not''),
     (''doesn't'', ''does not''),
     (''didn't'', ''did not''),
     (''can't'', ''cannot''),
     (''won't'', ''will not''),
     (''isn't'', ''is not''),
     (''aren't'', ''are not''),
     (''wasn't'', ''was not''),
     (''weren't'', ''were not'')]"

text \<open>The loop \<^verbatim>\<open>for contraction, expansion in contractions.items()\<close>.\<close>

definition expand_contractions :: "string \<Rightarrow> string" where
  "expand_contractions s =
     foldl (\<lambda>text (contraction, expansion). replace contraction expansion text) s contractions"

text \<open>The text before the contraction table is applied: the first three statements.\<close>

definition clean_text :: "string \<Rightarrow> string" where
  "clean_text s = join '' '' (split (sub_special (strip (lower s))))"

definition normalize_text :: "string \<Rightarrow> string" where
  "normalize_text s = expand_contractions (clean_text s)"

section \<open>JSON values and the similarity library\<close>

text \<open>
  The data handed to the chatbot is what \<^verbatim>\<open>json.load\<close> returns.  Numbers are the
  integers; a dictionary is the list of its items in insertion order, with string keys.
\<close>

datatype json =
    JNull
  | JBool bool
  | JInt int
  | JStr string
  | JList "json list"
  | JDict "(string \<times> json) list"

text \<open>
  The functions of the package \<^verbatim>\<open>fuzzywuzzy\<close> are not part of the repository: they are
  parameters of the model.
  \<^item> \<open>ratio\<close>, \<open>partial_ratio\<close>, \<open>token_set_ratio\<close>: the functions of these names of
    \<^verbatim>\<open>fuzz\<close>;
  \<^item> \<open>scorer\<close>: the score \<^verbatim>\<open>process.extractOne\<close> computes for a query and one choice,
    \<open>None\<close> when the library raises there;
  \<^item> \<open>format\<close>: what an f-string writes for a value that is not a string.
\<close>

record lib =
  ratio :: "string \<Rightarrow> string \<Rightarrow> int"
  partial_ratio :: "string \<Rightarrow> string \<Rightarrow> int"
  token_set_ratio :: "string \<Rightarrow> string \<Rightarrow> int"
  scorer :: "string \<Rightarrow> json \<Rightarrow> int option"
  format :: "json \<Rightarrow> string"

section \<open>Intent scores\<close>

definition INTENT_KEYWORDS :: "(string \<times> string list) list" where
  "INTENT_KEYWORDS =
    [(''greeting'',
        [''hi'', ''hello'', ''hey'', ''salam'', ''assalam'', ''good morning'', ''good afternoon'',
         ''good evening'', ''greetings'', ''hi there'', ''hello there'']),
     (''farewell'',
        [''bye'', ''goodbye'', ''see you'', ''farewell'', ''later'', ''take care'', ''see ya'',
         ''goodbye'', ''ciao'', ''adios'']),
     (''hours_query'',
        [''open'', ''opening'', ''opens'', ''close'', ''closing'', ''closes'', ''hours'', ''hour'',
         ''timing'', ''timings'', ''time'', ''schedule'', ''when'', ''what time'',
         ''operational'', ''working hours'', ''business hours'']),
     (''branch_query'',
        [''branch'', ''branches'', ''location'', ''locations'', ''address'', ''addresses'',
         ''phone'', ''contact'', ''where'', ''find'', ''locate'', ''outlet'', ''outlets'',
         ''store'', ''stores'', ''shop'', ''near'']),
     (''about'',
        [''about'', ''information'', ''info'', ''tell me about'', ''who are you'', ''what is'',
         ''describe'', ''details'', ''background'', ''story'', ''history'', ''mission'']),
     (''faq_query'',
        [''delivery'', ''deliver'', ''veg'', ''vegetarian'', ''halal'', ''service'', ''services'',
         ''parking'', ''park'', ''car'', ''payment'', ''pay'', ''card'', ''cash'', ''credit'',
         ''reservation'', ''book'', ''table'', ''seat'', ''sitting'', ''wifi'', ''internet'']),
     (''menu_query'',
        [''menu'', ''dish'', ''dishes'', ''food'', ''item'', ''items'', ''order'', ''burger'',
         ''pizza'', ''pasta'', ''drink'', ''fries'', ''price'', ''prices'', ''cost'', ''how much'',
         ''variants'', ''flavours'', ''flavors'', ''show'', ''what'', ''list'', ''see'',
         ''have'', ''serve'', ''what's'', ''what is'', ''what are'', ''tell me'', ''show me'',
         ''give me'', ''i want'', ''can i get'', ''what do you have'', ''what do you serve'',
         ''what can i order'', ''what options'', ''selection'', ''spicy'', ''hot''])]"

text \<open>
  \<^verbatim>\<open>calculate_intent_score\<close>.  \<open>best_match\<close> is the inner loop over the words of the
  message, \<open>word_scores\<close> the first loop over the keywords, \<open>phrase_scores\<close> the second.
  The words are a Python set: a list without duplicates, whose order the result does not
  depend on.
\<close>

definition best_match :: "lib \<Rightarrow> string list \<Rightarrow> string \<Rightarrow> int" where
  "best_match L user_words keyword =
     foldl (\<lambda>best user_word.
              if length user_word > 2 \<and> length keyword > 2
              then max best (ratio L user_word keyword) else best)
       0 user_words"

definition word_scores :: "lib \<Rightarrow> string list \<Rightarrow> string list \<Rightarrow> int list" where
  "word_scores L user_words intent_keywords =
     map (\<lambda>keyword. if keyword \<in> set user_words then 100
                     else best_match L user_words keyword) intent_keywords"

definition phrase_scores :: "lib \<Rightarrow> string \<Rightarrow> string list \<Rightarrow> int list" where
  "phrase_scores L user_msg intent_keywords =
     map (\<lambda>keyword. partial_ratio L user_msg keyword)
       (filter (\<lambda>keyword. length (split keyword) > 1) intent_keywords)"

definition calculate_intent_score :: "lib \<Rightarrow> string \<Rightarrow> string list \<Rightarrow> int" where
  "calculate_intent_score L user_msg intent_keywords =
     (let user_words = remdups (split user_msg);
          scores = word_scores L user_words intent_keywords
                   @ phrase_scores L user_msg intent_keywords
      in if scores = [] then 0 else Max (set scores))"

text \<open>
  The loop of \<^verbatim>\<open>detect_intent\<close> over the intents: the score of
  \<^verbatim>\<open>calculate_intent_score\<close>, raised by the direct keyword matches.
\<close>

definition keyword_boost :: "string \<Rightarrow> int \<Rightarrow> string \<Rightarrow> int" where
  "keyword_boost normalized_msg score keyword =
     (if py_in ('' '' @ keyword @ '' '') ('' '' @ normalized_msg @ '' '') then max score 100
      else if length keyword > 3 \<and> py_in keyword normalized_msg then max score 90
      else score)"

definition intent_score :: "lib \<Rightarrow> string \<Rightarrow> string list \<Rightarrow> int" where
  "intent_score L normalized_msg keywords =
     foldl (keyword_boost normalized_msg)
       (calculate_intent_score L normalized_msg keywords) keywords"

definition intent_scores :: "lib \<Rightarrow> string \<Rightarrow> (string \<times> int) list" where
  "intent_scores L normalized_msg =
     map (\<lambda>(intent, keywords). (intent, intent_score L normalized_msg keywords))
       INTENT_KEYWORDS"

text \<open>\<^verbatim>\<open>intent_scores.get(intent, 0)\<close>.\<close>

definition get_score :: "(string \<times> int) list \<Rightarrow> string \<Rightarrow> int" where
  "get_score scores intent = (case map_of scores intent of Some s \<Rightarrow> s | None \<Rightarrow> 0)"

text \<open>
  Python's \<^verbatim>\<open>max(xs, key=...)\<close> on a list that is not empty: the first element, in
  order, whose key is maximal.  \<open>first_max b xs\<close> scans \<open>xs\<close> with \<open>b\<close> the best so far.
\<close>

fun first_max :: "('a \<times> int) \<Rightarrow> ('a \<times> int) list \<Rightarrow> ('a \<times> int)" where
  "first_max b [] = b"
| "first_max b (kv # kvs) = (if snd kv > snd b then first_max kv kvs else first_max b kvs)"

text \<open>
  \<^verbatim>\<open>max(intent_scores, key=intent_scores.get)\<close>; the dictionary has seven items, in the
  order of \<open>INTENT_KEYWORDS\<close>.
\<close>

definition max_key :: "(string \<times> int) list \<Rightarrow> string" where
  "max_key scores = fst (first_max (hd scores) (tl scores))"

section \<open>Intent detection\<close>

definition detect_intent :: "lib \<Rightarrow> string \<Rightarrow> string" where
  "detect_intent L user_msg =
    (let normalized_msg = normalize_text user_msg;
         scores = intent_scores L normalized_msg
     in if get_score scores ''greeting'' > 80 then ''greeting''
        else if get_score scores ''farewell'' > 80 then ''farewell''
        else if get_score scores ''branch_query'' > 70
                \<and> \<not> get_score scores ''menu_query'' > get_score scores ''branch_query''
             then ''branch_query''
        else if get_score scores ''faq_query'' > 70 then ''faq_query''
        else if get_score scores ''hours_query'' > 70
                \<and> (if get_score scores ''menu_query'' > 70
                    then list_ex (\<lambda>w. py_in w normalized_msg)
                           [''open'', ''close'', ''timing'', ''hour'']
                    else True)
             then ''hours_query''
        else if get_score scores ''about'' > 70 \<and> get_score scores ''menu_query'' < 60
             then ''about''
        else if get_score scores ''menu_query'' > 50 then ''menu_query''
        else if Max (set (map snd scores)) > 50 then max_key scores
        else if length (split normalized_msg) \<le> 4 then ''menu_query''
        else ''unknown'')"

section \<open>Menu search\<close>

datatype error = AttributeError | TypeError

text \<open>Truth value, hashability and equality as dictionary keys of a Python value.\<close>

definition truthy :: "json \<Rightarrow> bool" where
  "truthy v =
     (case v of
        JNull \<Rightarrow> False
      | JBool b \<Rightarrow> b
      | JInt i \<Rightarrow> i \<noteq> 0
      | JStr s \<Rightarrow> s \<noteq> []
      | JList xs \<Rightarrow> xs \<noteq> []
      | JDict kvs \<Rightarrow> kvs \<noteq> [])"

definition hashable :: "json \<Rightarrow> bool" where
  "hashable v = (case v of JList xs \<Rightarrow> False | JDict kvs \<Rightarrow> False | _ \<Rightarrow> True)"

text \<open>\<^verbatim>\<open>True\<close> and \<^verbatim>\<open>1\<close>, \<^verbatim>\<open>False\<close> and \<^verbatim>\<open>0\<close> are the same dictionary key.\<close>

definition key_of :: "json \<Rightarrow> json" where
  "key_of v = (case v of JBool b \<Rightarrow> JInt (if b then 1 else 0) | _ \<Rightarrow> v)"

text \<open>
  \<open>get_field v k\<close> is \<open>Some (v[k])\<close> when \<^verbatim>\<open>isinstance(v, dict) and k in v\<close>, and
  \<open>None\<close> otherwise.
\<close>

definition get_field :: "json \<Rightarrow> string \<Rightarrow> json option" where
  "get_field v k = (case v of JDict kvs \<Rightarrow> map_of kvs k | _ \<Rightarrow> None)"

text \<open>What an f-string writes for a value.\<close>

definition py_str :: "lib \<Rightarrow> json \<Rightarrow> string" where
  "py_str L v = (case v of JStr s \<Rightarrow> s | _ \<Rightarrow> format L v)"

text \<open>A \<^verbatim>\<open>for\<close> loop whose body may raise: the state is threaded, an exception ends it.\<close>

fun for_each :: "('a \<Rightarrow> 's \<Rightarrow> error + 's) \<Rightarrow> 'a list \<Rightarrow> 's \<Rightarrow> error + 's" where
  "for_each body [] st = Inr st"
| "for_each body (x # xs) st =
     (case body x st of Inl e \<Rightarrow> Inl e | Inr st' \<Rightarrow> for_each body xs st')"

definition and_then :: "error + 'a \<Rightarrow> ('a \<Rightarrow> error + 'b) \<Rightarrow> error + 'b" where
  "and_then r f = (case r of Inl e \<Rightarrow> Inl e | Inr x \<Rightarrow> f x)"

text \<open>
  The two containers \<^verbatim>\<open>all_items\<close> and \<^verbatim>\<open>item_map\<close> of \<^verbatim>\<open>search_menu\<close>.
  \<open>add_candidate s name\<close> is the pair of statements
  \<^verbatim>\<open>all_items.append(s); item_map[s] = name\<close>: the assignment raises \<^verbatim>\<open>TypeError\<close> when
  \<open>s\<close> is a list or a dictionary, and it overwrites what \<open>s\<close> was mapped to before.
\<close>

type_synonym corpus = "json list \<times> (json \<Rightarrow> json option)"

definition add_candidate :: "json \<Rightarrow> json \<Rightarrow> corpus \<Rightarrow> error + corpus" where
  "add_candidate s name st =
     (if hashable s then Inr (fst st @ [s], (snd st)(key_of s \<mapsto> name)) else Inl TypeError)"

text \<open>The body of the loop over the variants of an item.\<close>

definition add_variant :: "lib \<Rightarrow> json \<Rightarrow> json \<Rightarrow> corpus \<Rightarrow> error + corpus" where
  "add_variant L name v st =
     (case get_field v ''size'' of
        Some sz \<Rightarrow> add_candidate (JStr (py_str L sz @ '' '' @ py_str L name)) name st
      | None \<Rightarrow> Inr st)"

text \<open>The body of the loop over the flavours of an item.\<close>

definition add_flavour :: "lib \<Rightarrow> json \<Rightarrow> json \<Rightarrow> corpus \<Rightarrow> error + corpus" where
  "add_flavour L name f st =
     (case get_field f ''name'' of
        Some fname \<Rightarrow>
          and_then (add_candidate (JStr (py_str L fname @ '' '' @ py_str L name)) name st)
            (add_candidate fname name)
      | None \<Rightarrow>
          (case f of
             JStr s \<Rightarrow>
               and_then (add_candidate (JStr (s @ '' '' @ py_str L name)) name st)
                 (add_candidate (JStr s) name)
           | _ \<Rightarrow> Inr st))"

text \<open>The body of the loop over the items of a category.\<close>

definition add_item :: "lib \<Rightarrow> json \<Rightarrow> corpus \<Rightarrow> error + corpus" where
  "add_item L item st =
     (case get_field item ''name'' of
        None \<Rightarrow> Inr st
      | Some name \<Rightarrow>
          and_then (add_candidate name name st) (\<lambda>st.
          and_then (case get_field item ''description'' of
                      Some desc \<Rightarrow> if truthy desc then add_candidate desc name st else Inr st
                    | None \<Rightarrow> Inr st) (\<lambda>st.
          and_then (case get_field item ''variants'' of
                      Some (JList vs) \<Rightarrow> for_each (add_variant L name) vs st
                    | _ \<Rightarrow> Inr st) (\<lambda>st.
          (case get_field item ''flavours'' of
             Some (JList fs) \<Rightarrow> for_each (add_flavour L name) fs st
           | _ \<Rightarrow> Inr st)))))"

text \<open>The body of the loop over \<^verbatim>\<open>menu_data.items()\<close>.\<close>

definition add_category :: "lib \<Rightarrow> string \<times> json \<Rightarrow> corpus \<Rightarrow> error + corpus" where
  "add_category L entry st =
     (case snd entry of JList items \<Rightarrow> for_each (add_item L) items st | _ \<Rightarrow> Inr st)"

text \<open>\<^verbatim>\<open>menu_data.items()\<close> raises \<^verbatim>\<open>AttributeError\<close> when the menu is not a dictionary.\<close>

definition build_corpus :: "lib \<Rightarrow> json \<Rightarrow> error + corpus" where
  "build_corpus L menu_data =
     (case menu_data of
        JDict categories \<Rightarrow> for_each (add_category L) categories ([], Map.empty)
      | _ \<Rightarrow> Inl AttributeError)"

text \<open>
  Modelled from the spec: \<^verbatim>\<open>process.extractOne\<close> of the package \<^verbatim>\<open>fuzzywuzzy\<close>, whose
  code is not in the repository.  It scores the query against every choice, keeps the
  choices whose score is at least the cutoff 0, and returns the first one with the highest
  score, together with that score.  The result is \<open>None\<close> when the call raises or returns
  \<^verbatim>\<open>None\<close>: \<^verbatim>\<open>search_menu\<close> answers \<^verbatim>\<open>None\<close> in both cases.
\<close>

definition extractOne :: "lib \<Rightarrow> string \<Rightarrow> json list \<Rightarrow> (json \<times> int) option" where
  "extractOne L query choices =
     (if list_ex (\<lambda>c. scorer L query c = None) choices then None
      else (case filter (\<lambda>cs. snd cs \<ge> 0) (map (\<lambda>c. (c, the (scorer L query c))) choices) of
              [] \<Rightarrow> None
            | b # bs \<Rightarrow> Some (first_max b bs)))"

text \<open>\<^verbatim>\<open>search_menu\<close>; the value \<^verbatim>\<open>None\<close> is \<open>JNull\<close>.\<close>

definition search_menu :: "lib \<Rightarrow> string \<Rightarrow> json \<Rightarrow> error + json" where
  "search_menu L user_msg menu_data =
     (case build_corpus L menu_data of
        Inl e \<Rightarrow> Inl e
      | Inr (all_items, item_map) \<Rightarrow>
          if all_items = [] then Inr JNull
          else (case extractOne L user_msg all_items of
                  Some (match, score) \<Rightarrow>
                    if score \<ge> 60
                    then Inr (case item_map (key_of match) of Some name \<Rightarrow> name | None \<Rightarrow> JNull)
                    else Inr JNull
                | None \<Rightarrow> Inr JNull))"

text \<open>
  The items of a menu that reach the corpus, in the order the loops visit them, and the
  search strings one item adds, in the order it adds them.
\<close>

definition catalog_items :: "json \<Rightarrow> json list" where
  "catalog_items menu_data =
     (case menu_data of
        JDict categories \<Rightarrow>
          concat (map (\<lambda>entry. case snd entry of
                                 JList items \<Rightarrow> filter (\<lambda>item. get_field item ''name'' \<noteq> None) items
                               | _ \<Rightarrow> []) categories)
      | _ \<Rightarrow> [])"

definition item_name :: "json \<Rightarrow> json" where
  "item_name item = (case get_field item ''name'' of Some name \<Rightarrow> name | None \<Rightarrow> JNull)"

definition variant_strings :: "lib \<Rightarrow> json \<Rightarrow> json \<Rightarrow> json list" where
  "variant_strings L name v =
     (case get_field v ''size'' of
        Some sz \<Rightarrow> [JStr (py_str L sz @ '' '' @ py_str L name)]
      | None \<Rightarrow> [])"

definition flavour_strings :: "lib \<Rightarrow> json \<Rightarrow> json \<Rightarrow> json list" where
  "flavour_strings L name f =
     (case get_field f ''name'' of
        Some fname \<Rightarrow> [JStr (py_str L fname @ '' '' @ py_str L name), fname]
      | None \<Rightarrow> (case f of JStr s \<Rightarrow> [JStr (s @ '' '' @ py_str L name), JStr s] | _ \<Rightarrow> []))"

definition item_strings :: "lib \<Rightarrow> json \<Rightarrow> json list" where
  "item_strings L item =
     (case get_field item ''name'' of
        None \<Rightarrow> []
      | Some name \<Rightarrow>
          [name]
          @ (case get_field item ''description'' of
               Some desc \<Rightarrow> if truthy desc then [desc] else []
             | None \<Rightarrow> [])
          @ (case get_field item ''variants'' of
               Some (JList vs) \<Rightarrow> concat (map (variant_strings L name) vs)
             | _ \<Rightarrow> [])
          @ (case get_field item ''flavours'' of
               Some (JList fs) \<Rightarrow> concat (map (flavour_strings L name) fs)
             | _ \<Rightarrow> []))"

definition contributes :: "lib \<Rightarrow> json \<Rightarrow> json \<Rightarrow> bool" where
  "contributes L s item \<longleftrightarrow> key_of s \<in> key_of ` set (item_strings L item)"

text \<open>The catalogs whose search strings can all be dictionary keys.\<close>

definition hashable_menu :: "lib \<Rightarrow> json \<Rightarrow> bool" where
  "hashable_menu L menu_data \<longleftrightarrow>
     (\<forall>item \<in> set (catalog_items menu_data). \<forall>s \<in> set (item_strings L item). hashable s)"

text \<open>
  A similarity library to run the definitions with: two identical strings score 100, a
  keyword that occurs in the message scores 100 as a part of it, and everything else
  scores 0.
\<close>

definition exact_lib :: lib where
  "exact_lib =
     \<lparr>ratio = (\<lambda>a b. if a = b then 100 else 0),
      partial_ratio = (\<lambda>a b. if b \<noteq> [] \<and> py_in b a then 100 else 0),
      token_set_ratio = (\<lambda>a b. if a = b then 100 else 0),
      scorer = (\<lambda>q c. Some (if c = JStr q then 100 else 0)),
      format = (\<lambda>v. ''?'')\<rparr>"

text \<open>
  The range the similarity functions of the library have: every score is an integer
  between 0 and 100.
\<close>

definition scores_in_range :: "lib \<Rightarrow> bool" where
  "scores_in_range L \<longleftrightarrow>
     (\<forall>a b. 0 \<le> ratio L a b \<and> ratio L a b \<le> 100
          \<and> 0 \<le> partial_ratio L a b \<and> partial_ratio L a b \<le> 100)"

text \<open>
  The best \<open>ratio\<close> of a keyword with the words of the message, over the pairs in which
  both are longer than two characters; 0 when there is no such pair.
\<close>

definition best_ratio :: "lib \<Rightarrow> string list \<Rightarrow> string \<Rightarrow> int" where
  "best_ratio L tokens keyword =
     Max (set (0 # map (\<lambda>w. ratio L w keyword)
                    (filter (\<lambda>w. length w > 2 \<and> length keyword > 2) tokens)))"

text \<open>
  What the corpus becomes when the strings \<open>ss\<close> are added for the item called \<open>name\<close>;
  \<open>add_all\<close> adds them one after the other and raises at the first one that cannot be a
  key; \<open>raw_items\<close> are the entries of all the categories, in order; \<open>items_effect\<close> is
  the corpus after a list of entries.
\<close>

definition strings_effect :: "json \<Rightarrow> json list \<Rightarrow> corpus \<Rightarrow> corpus" where
  "strings_effect name ss st =
     (fst st @ ss, \<lambda>k. if k \<in> key_of ` set ss then Some name else snd st k)"

definition add_all :: "json \<Rightarrow> json list \<Rightarrow> corpus \<Rightarrow> error + corpus" where
  "add_all name ss st =
     (if list_all hashable ss then Inr (strings_effect name ss st) else Inl TypeError)"

definition raw_items :: "(string \<times> json) list \<Rightarrow> json list" where
  "raw_items categories =
     concat (map (\<lambda>entry. case snd entry of JList items \<Rightarrow> items | _ \<Rightarrow> []) categories)"

definition items_effect :: "lib \<Rightarrow> json list \<Rightarrow> corpus \<Rightarrow> corpus" where
  "items_effect L items st =
     foldl (\<lambda>st item. strings_effect (item_name item) (item_strings L item) st) st items"

text \<open>A menu in which two items have the flavour "spicy", and one entry is not an item.\<close>

definition spicy_menu :: json where
  "spicy_menu =
     JDict [(''burgers'',
       JList [JDict [(''name'', JStr ''Zinger Burger''), (''flavours'', JList [JStr ''spicy''])],
              JStr ''deal of the day'',
              JDict [(''name'', JStr ''Wings''),
                     (''flavours'', JList [JDict [(''name'', JStr ''spicy'')]])]])]"

section \<open>The replies\<close>

text \<open>\<^verbatim>\<open>d.get(key, default)\<close> on a dictionary.\<close>

definition dict_get :: "(string \<times> json) list \<Rightarrow> string \<Rightarrow> json \<Rightarrow> json" where
  "dict_get d k dflt = (case map_of d k of Some v \<Rightarrow> v | None \<Rightarrow> dflt)"

text \<open>
  What a \<^verbatim>\<open>for\<close> loop iterates over: the elements of a list, the characters of a string,
  the keys of a dictionary; any other value raises \<^verbatim>\<open>TypeError\<close>.
\<close>

definition py_iter :: "json \<Rightarrow> error + json list" where
  "py_iter v =
     (case v of
        JList xs \<Rightarrow> Inr xs
      | JStr s \<Rightarrow> Inr (map (\<lambda>c. JStr [c]) s)
      | JDict kvs \<Rightarrow> Inr (map (\<lambda>kv. JStr (fst kv)) kvs)
      | _ \<Rightarrow> Inl TypeError)"

text \<open>
  The body of the loop over the FAQ entries; the state is the pair of \<^verbatim>\<open>best_match\<close> and
  \<^verbatim>\<open>best_score\<close>.  \<^verbatim>\<open>question.lower()\<close> raises \<^verbatim>\<open>AttributeError\<close> when the question is not
  a string.
\<close>

definition faq_step :: "lib \<Rightarrow> string \<Rightarrow> json \<Rightarrow> json \<times> int \<Rightarrow> error + json \<times> int" where
  "faq_step L user_lower q best =
     (case q of
        JDict kvs \<Rightarrow>
          (case dict_get kvs ''question'' (JStr '''') of
             JStr question \<Rightarrow>
               (let score = token_set_ratio L user_lower (lower question)
                in if score > snd best then Inr (dict_get kvs ''answer'' (JStr ''''), score)
                   else Inr best)
           | _ \<Rightarrow> Inl AttributeError)
      | _ \<Rightarrow> Inr best)"

text \<open>The reply of the FAQ branch when no question is close enough.\<close>

definition faq_no_match :: string where
  "faq_no_match =
     ''Sorry, I don't have an answer for that. You can ask ''
     @ ''about delivery, vegetarian options, halal food, or our services.''"

text \<open>The branch \<^verbatim>\<open>if intent == "faq_query"\<close> of \<^verbatim>\<open>get_bot_response\<close>.\<close>

definition faq_reply :: "lib \<Rightarrow> string \<Rightarrow> (string \<times> json) list \<Rightarrow> error + json" where
  "faq_reply L user_lower data =
     (let faqs = dict_get data ''faq'' (JList [])
      in if \<not> truthy faqs then Inr (JStr ''Sorry, I don't have FAQ information available.'')
         else (case py_iter faqs of
                 Inl e \<Rightarrow> Inl e
               | Inr qs \<Rightarrow>
                   (case for_each (faq_step L user_lower) qs (JNull, 0) of
                      Inl e \<Rightarrow> Inl e
                    | Inr (best_answer, best_score) \<Rightarrow>
                        if best_score > 60 then Inr best_answer
                        else Inr (JStr faq_no_match))))"

text \<open>
  The entries of a FAQ list the loop looks at, and the question, the answer and the score
  of such an entry.
\<close>

definition is_dict :: "json \<Rightarrow> bool" where
  "is_dict v = (case v of JDict kvs \<Rightarrow> True | _ \<Rightarrow> False)"

definition faq_question :: "json \<Rightarrow> string option" where
  "faq_question q =
     (case q of
        JDict kvs \<Rightarrow> (case dict_get kvs ''question'' (JStr '''') of JStr s \<Rightarrow> Some s | _ \<Rightarrow> None)
      | _ \<Rightarrow> None)"

definition faq_answer :: "json \<Rightarrow> json" where
  "faq_answer q = (case q of JDict kvs \<Rightarrow> dict_get kvs ''answer'' (JStr '''') | _ \<Rightarrow> JNull)"

definition faq_score :: "lib \<Rightarrow> string \<Rightarrow> json \<Rightarrow> int" where
  "faq_score L user_lower q =
     (case faq_question q of
        Some s \<Rightarrow> token_set_ratio L user_lower (lower s)
      | None \<Rightarrow> 0)"

text \<open>
  The texts of the replies.  The characters outside ASCII are written as the bytes the
  source file has for them.
\<close>

definition greetings :: "string list" where
  "greetings =
     [''Hi! '' @ [CHR 0xC3, CHR 0xB0, CHR 0xC5, CHR 0xB8, CHR 0xE2, CHR 0x80, CHR 0x98,
                  CHR 0xE2, CHR 0x80, CHR 0xB9]
        @ '' Welcome to Speedy Bites! How can I help you today?'',
      ''Hello! Welcome to Speedy Bites! ''
        @ [CHR 0xC3, CHR 0xB0, CHR 0xC5, CHR 0xB8, CHR 0xC2, CHR 0xBD, CHR 0xC3, CHR 0xAF,
           CHR 0xC2, CHR 0xB8]
        @ '' What would you like?'',
      ''Hey there! '' @ [CHR 0xC3, CHR 0xB0, CHR 0xC5, CHR 0xB8, CHR 0xE2, CHR 0x80, CHR 0x98,
                         CHR 0xE2, CHR 0x80, CHR 0xB9]
        @ '' Welcome to Speedy Bites! What can I do for you?'']"

definition farewells :: "string list" where
  "farewells = [''Bye! Have a great day!'', ''See you soon!'', ''Thanks for visiting Speedy Bites!'']"

definition fallback :: string where
  "fallback =
     ''Sorry, I didn't understand that. I can help with menu, timings, branches, or FAQs. ''
     @ [CHR 0xC3, CHR 0xB0, CHR 0xC5, CHR 0xB8, CHR 0xCB, CHR 0x9C, CHR 0xC5, CHR 0xA0]"

text \<open>
  What \<^verbatim>\<open>get_bot_response\<close> takes from outside the intent and search engines, as
  parameters: the number \<open>draw\<close> that \<^verbatim>\<open>random.choice\<close> draws, the texts rendered from
  the data, and \<open>later_block\<close>, the statements of lines 599 to 890, which give \<open>Some\<close>
  result when they return or raise and \<open>None\<close> when control leaves them at their end.
  \<^item> \<open>full_menu\<close>: lines 398 to 433, from the menu and the currency;
  \<^item> \<open>item_details\<close>: the loop of lines 438 to 474, from the match, the menu and the
    currency; \<open>None\<close> when the loop ends without a \<^verbatim>\<open>return\<close>;
  \<^item> \<open>popular_items\<close>: lines 477 to 500;
  \<^item> \<open>branches_text\<close>, \<open>hours_text\<close>, \<open>about_text\<close>: lines 507 to 523, 531 to 556 and
    588 to 596.
\<close>

record views =
  draw :: nat
  full_menu :: "json \<Rightarrow> json \<Rightarrow> error + json"
  item_details :: "json \<Rightarrow> json \<Rightarrow> json \<Rightarrow> (error + json) option"
  popular_items :: "json \<Rightarrow> json \<Rightarrow> error + json"
  branches_text :: "json \<Rightarrow> error + json"
  hours_text :: "json \<Rightarrow> error + json"
  about_text :: "json \<Rightarrow> error + json"
  later_block :: "string \<Rightarrow> string \<Rightarrow> string \<Rightarrow> (string \<times> json) list \<Rightarrow> (error + json) option"

text \<open>\<^verbatim>\<open>random.choice\<close> on a list that is not empty.\<close>

definition random_choice :: "views \<Rightarrow> string list \<Rightarrow> string" where
  "random_choice V xs = xs ! (draw V mod length xs)"

text \<open>The branch \<^verbatim>\<open>if intent == "menu_query"\<close>.\<close>

definition menu_reply :: "views \<Rightarrow> lib \<Rightarrow> string \<Rightarrow> string \<Rightarrow> (string \<times> json) list \<Rightarrow> error + json" where
  "menu_reply V L user_msg user_lower data =
     (let menu_data = dict_get data ''menu'' (JDict []);
          currency = dict_get data ''currency'' (JStr ''PKR'')
      in if \<not> truthy menu_data then Inr (JStr ''Sorry, the menu is currently unavailable.'')
         else if list_ex (\<lambda>word. py_in word user_lower)
                   [''full menu'', ''all menu'', ''complete menu'', ''entire menu'', ''show all'',
                    ''all dishes'', ''all items'']
              then full_menu V menu_data currency
         else (case search_menu L user_msg menu_data of
                 Inl e \<Rightarrow> Inl e
               | Inr match \<Rightarrow>
                   (case (if truthy match then item_details V match menu_data currency else None) of
                      Some r \<Rightarrow> r
                    | None \<Rightarrow> popular_items V menu_data currency)))"

definition branch_reply :: "views \<Rightarrow> (string \<times> json) list \<Rightarrow> error + json" where
  "branch_reply V data =
     (let branches = dict_get data ''branches'' (JList [])
      in if \<not> truthy branches then Inr (JStr ''Sorry, branch information is not available.'')
         else branches_text V branches)"

definition hours_reply :: "views \<Rightarrow> (string \<times> json) list \<Rightarrow> error + json" where
  "hours_reply V data =
     (let hours_list = dict_get data ''hours'' (JList [])
      in if \<not> truthy hours_list then Inr (JStr ''Sorry, opening hours are not available.'')
         else hours_text V hours_list)"

definition about_reply :: "views \<Rightarrow> (string \<times> json) list \<Rightarrow> error + json" where
  "about_reply V data =
     (let about_data = dict_get data ''about'' (JDict [])
      in if \<not> truthy about_data then Inr (JStr ''Sorry, restaurant information is not available.'')
         else about_text V about_data)"

text \<open>
  A function body as the list of its statements: each gives \<open>Some\<close> result when it
  returns or raises, \<open>None\<close> when control goes on to the next one.  A body that ends
  without a \<^verbatim>\<open>return\<close> returns \<^verbatim>\<open>None\<close>.
\<close>

fun run_body :: "(error + json) option list \<Rightarrow> error + json" where
  "run_body [] = Inr JNull"
| "run_body (Some r # rest) = r"
| "run_body (None # rest) = run_body rest"

definition when_intent :: "string \<Rightarrow> string \<Rightarrow> error + json \<Rightarrow> (error + json) option" where
  "when_intent intent name reply = (if intent = name then Some reply else None)"

text \<open>The statements of \<^verbatim>\<open>get_bot_response\<close> up to line 598, for a detected intent.\<close>

definition statements_to_598 ::
  "views \<Rightarrow> lib \<Rightarrow> string \<Rightarrow> string \<Rightarrow> (string \<times> json) list \<Rightarrow> (error + json) option list" where
  "statements_to_598 V L intent user_msg data =
     (let user_lower = strip (lower user_msg)
      in [when_intent intent ''greeting'' (Inr (JStr (random_choice V greetings))),
          when_intent intent ''farewell'' (Inr (JStr (random_choice V farewells))),
          when_intent intent ''menu_query'' (menu_reply V L user_msg user_lower data),
          when_intent intent ''branch_query'' (branch_reply V data),
          when_intent intent ''hours_query'' (hours_reply V data),
          when_intent intent ''faq_query'' (faq_reply L user_lower data),
          when_intent intent ''about'' (about_reply V data),
          Some (Inr (JStr fallback))])"

text \<open>The whole body: lines 599 to 890 and the last \<^verbatim>\<open>return fallback\<close> follow.\<close>

definition respond ::
  "views \<Rightarrow> lib \<Rightarrow> string \<Rightarrow> string \<Rightarrow> (string \<times> json) list \<Rightarrow> error + json" where
  "respond V L intent user_msg data =
     run_body (statements_to_598 V L intent user_msg data
               @ [later_block V intent user_msg (strip (lower user_msg)) data,
                  Some (Inr (JStr fallback))])"

definition get_bot_response ::
  "views \<Rightarrow> lib \<Rightarrow> string \<Rightarrow> (string \<times> json) list \<Rightarrow> error + json" where
  "get_bot_response V L user_msg data = respond V L (detect_intent L user_msg) user_msg data"

text \<open>The function cut after line 598.\<close>

definition respond_to_598 ::
  "views \<Rightarrow> lib \<Rightarrow> string \<Rightarrow> string \<Rightarrow> (string \<times> json) list \<Rightarrow> error + json" where
  "respond_to_598 V L intent user_msg data = run_body (statements_to_598 V L intent user_msg data)"

definition get_bot_response_to_598 ::
  "views \<Rightarrow> lib \<Rightarrow> string \<Rightarrow> (string \<times> json) list \<Rightarrow> error + json" where
  "get_bot_response_to_598 V L user_msg data =
     respond_to_598 V L (detect_intent L user_msg) user_msg data"

text \<open>The intents that have a branch before line 598.\<close>

definition handled_intents :: "string list" where
  "handled_intents =
     [''greeting'', ''farewell'', ''menu_query'', ''branch_query'', ''hours_query'',
      ''faq_query'', ''about'']"

text \<open>Views to run the definitions with: every text is empty, nothing raises.\<close>

definition plain_views :: views where
  "plain_views =
     \<lparr>draw = 0,
      full_menu = (\<lambda>menu currency. Inr (JStr [])),
      item_details = (\<lambda>match menu currency. None),
      popular_items = (\<lambda>menu currency. Inr (JStr [])),
      branches_text = (\<lambda>branches. Inr (JStr [])),
      hours_text = (\<lambda>hours. Inr (JStr [])),
      about_text = (\<lambda>about. Inr (JStr [])),
      later_block = (\<lambda>intent user_msg user_lower data. Some (Inr (JStr ''later'')))\<rparr>"

text \<open>A FAQ list of two entries, and one element that is not an entry.\<close>

definition two_faqs :: "(string \<times> json) list" where
  "two_faqs =
     [(''faq'', JList [JDict [(''question'', JStr ''Do you deliver?''), (''answer'', JStr ''Yes.'')],
                       JInt 7,
                       JDict [(''question'', JStr ''do you deliver?''), (''answer'', JStr ''No.'')]])]"

text \<open>
  \<open>max_split m ys zs all\<close>: the element \<open>m\<close> of the list \<open>all\<close> has a score above those of
  the elements before it and not below those of the elements after it.
\<close>

definition max_split :: "('a \<times> int) \<Rightarrow> ('a \<times> int) list \<Rightarrow> ('a \<times> int) list \<Rightarrow> ('a \<times> int) list \<Rightarrow> bool" where
  "max_split m ys zs all \<longleftrightarrow>
     all = ys @ m # zs \<and> (\<forall>y \<in> set ys. snd y < snd m) \<and> (\<forall>z \<in> set zs. snd z \<le> snd m)"

section \<open>Properties of the normalisation\<close>

text \<open>
  The text that reaches the contraction table has no apostrophe, and every key of the
  table has one: the table changes nothing, for any input.
\<close>

lemma split_from_chars: "set (concat (split_from cur s)) \<subseteq> set cur \<union> set s"
proof (induction s arbitrary: cur)
  case Nil
  show ?case by simp
next
  case (Cons c cs)
  show ?case
  proof (cases "is_space c")
    case True
    then show ?thesis using Cons[of "[]"] by auto
  next
    case False
    then show ?thesis using Cons[of "cur @ [c]"] by auto
  qed
qed

lemma join_chars: "set (join sep xs) \<subseteq> set sep \<union> set (concat xs)"
  by (induction sep xs rule: join.induct) auto

lemma sub_special_chars: "c \<in> set (sub_special s) \<Longrightarrow> is_word c \<or> is_space c"
  by (auto simp: sub_special_def is_space_def split: if_splits)

lemma apostrophe_class: "\<not> is_word (CHR 0x27) \<and> \<not> is_space (CHR 0x27)"
  by (simp add: is_word_def is_space_def)

lemma clean_text_no_apostrophe: "CHR 0x27 \<notin> set (clean_text s)"
proof
  assume a: "CHR 0x27 \<in> set (clean_text s)"
  let ?t = "sub_special (strip (lower s))"
  have "set (clean_text s) \<subseteq> set '' '' \<union> set (concat (split ?t))"
    unfolding clean_text_def by (rule join_chars)
  moreover have "set (concat (split ?t)) \<subseteq> set ?t"
    unfolding split_def using split_from_chars[of "[]" ?t] by simp
  ultimately have "CHR 0x27 \<in> set ?t" using a by auto
  then show False using sub_special_chars apostrophe_class by blast
qed

lemma replace_absent:
  assumes "c \<in> set old" and "c \<notin> set s"
  shows "replace old new s = s"
  using assms(2)
proof (induction s)
  case Nil
  then show ?case using assms(1) by auto
next
  case (Cons x xs)
  have ne: "old \<noteq> []" using assms(1) by auto
  have "\<not> startswith (x # xs) old"
  proof
    assume "startswith (x # xs) old"
    then have "old = take (length old) (x # xs)" by (simp add: startswith_def)
    then have "set old \<subseteq> set (x # xs)" by (metis set_take_subset)
    with assms(1) Cons.prems show False by blast
  qed
  then show ?case using ne Cons by simp
qed

lemma contractions_apostrophe: "\<forall>p \<in> set contractions. CHR 0x27 \<in> set (fst p)"
  by (simp add: contractions_def)

lemma foldl_replace_absent:
  assumes "\<forall>p \<in> set table. c \<in> set (fst p)" and "c \<notin> set s"
  shows "foldl (\<lambda>text (contraction, expansion). replace contraction expansion text) s table = s"
  using assms(1)
proof (induction table)
  case Nil
  show ?case by simp
next
  case (Cons p table)
  obtain old new where p: "p = (old, new)" by (cases p)
  have "replace old new s = s"
    using Cons.prems p assms(2) by (intro replace_absent[of c]) auto
  then show ?case using Cons p by simp
qed

lemma normalize_text_is_clean_text: "normalize_text s = clean_text s"
  unfolding normalize_text_def expand_contractions_def
  by (rule foldl_replace_absent[OF contractions_apostrophe clean_text_no_apostrophe])

section \<open>Properties of the intent scores\<close>

lemma calculate_intent_score_hit:
  assumes "keyword \<in> set intent_keywords" and "keyword \<in> set (split user_msg)"
  shows "100 \<le> calculate_intent_score L user_msg intent_keywords"
proof -
  let ?ws = "word_scores L (remdups (split user_msg)) intent_keywords"
  have hit: "100 \<in> set ?ws"
    using assms by (force simp: word_scores_def)
  then have "100 \<le> Max (set (?ws @ phrase_scores L user_msg intent_keywords))"
    by (intro Max_ge) auto
  moreover have "?ws @ phrase_scores L user_msg intent_keywords \<noteq> []"
    using hit by auto
  ultimately show ?thesis
    by (simp add: calculate_intent_score_def Let_def)
qed

lemma keyword_boost_ge: "score \<le> keyword_boost msg score keyword"
  by (simp add: keyword_boost_def)

lemma foldl_keyword_boost_ge: "score \<le> foldl (keyword_boost msg) score ks"
proof (induction ks arbitrary: score)
  case Nil
  show ?case by simp
next
  case (Cons k ks)
  have "score \<le> keyword_boost msg score k" by (rule keyword_boost_ge)
  also have "\<dots> \<le> foldl (keyword_boost msg) (keyword_boost msg score k) ks" by (rule Cons.IH)
  finally show ?case by simp
qed

lemma intent_score_ge: "calculate_intent_score L msg ks \<le> intent_score L msg ks"
  by (simp add: intent_score_def foldl_keyword_boost_ge)

lemma distinct_intents: "distinct (map fst INTENT_KEYWORDS)"
  by (simp add: INTENT_KEYWORDS_def)

lemma map_of_mapped:
  "map_of (map (\<lambda>(k, v). (k, f v)) xs) k = map_option f (map_of xs k)"
  by (induction xs) auto

lemma map_of_intent_scores:
  "map_of (intent_scores L msg) intent =
   map_option (intent_score L msg) (map_of INTENT_KEYWORDS intent)"
  unfolding intent_scores_def by (simp add: map_of_mapped)

lemma get_score_intent:
  assumes "(intent, ks) \<in> set INTENT_KEYWORDS"
  shows "get_score (intent_scores L msg) intent = intent_score L msg ks"
proof -
  have "map_of INTENT_KEYWORDS intent = Some ks"
    using assms distinct_intents by (rule_tac map_of_is_SomeI) auto
  then show ?thesis by (simp add: get_score_def map_of_intent_scores)
qed

lemma greeting_keywords:
  "(''greeting'',
      [''hi'', ''hello'', ''hey'', ''salam'', ''assalam'', ''good morning'', ''good afternoon'',
       ''good evening'', ''greetings'', ''hi there'', ''hello there'']) \<in> set INTENT_KEYWORDS"
  by (simp add: INTENT_KEYWORDS_def)

lemma split_normalize_hi_there: "split (normalize_text ''Hi there!'') = [''hi'', ''there'']"
  by code_simp

lemma scores_in_range_exact_lib: "scores_in_range exact_lib"
  by (simp add: scores_in_range_def exact_lib_def)

lemma Max_insert_max:
  fixes b :: int
  assumes "finite S"
  shows "Max (insert (max b x) S) = max b (Max (insert x S))"
proof (cases "S = {}")
  case True
  then show ?thesis by simp
next
  case False
  with assms show ?thesis by (simp add: max.assoc)
qed

lemma foldl_max_filter:
  fixes b :: int
  shows "foldl (\<lambda>best w. if P w then max best (f w) else best) b ws
         = Max (set (b # map f (filter P ws)))"
proof (induction ws arbitrary: b)
  case Nil
  show ?case by simp
next
  case (Cons w ws)
  show ?case
  proof (cases "P w")
    case True
    have "foldl (\<lambda>best w. if P w then max best (f w) else best) b (w # ws)
          = Max (set (max b (f w) # map f (filter P ws)))"
      using True Cons[of "max b (f w)"] by simp
    also have "\<dots> = Max (insert (max b (f w)) (set (map f (filter P ws))))" by simp
    also have "\<dots> = max b (Max (insert (f w) (set (map f (filter P ws)))))"
      by (rule Max_insert_max) simp
    also have "\<dots> = Max (set (b # map f (filter P (w # ws))))"
      using True by simp
    finally show ?thesis .
  next
    case False
    with Cons[of b] show ?thesis by simp
  qed
qed

lemma best_match_eq: "best_match L (remdups ws) keyword = best_ratio L ws keyword"
proof -
  have "set (filter (\<lambda>w. length w > 2 \<and> length keyword > 2) (remdups ws))
        = set (filter (\<lambda>w. length w > 2 \<and> length keyword > 2) ws)"
    by auto
  then have "set (map (\<lambda>w. ratio L w keyword) (filter (\<lambda>w. length w > 2 \<and> length keyword > 2) (remdups ws)))
        = set (map (\<lambda>w. ratio L w keyword) (filter (\<lambda>w. length w > 2 \<and> length keyword > 2) ws))"
    by (simp only: set_map)
  then show ?thesis
    unfolding best_match_def best_ratio_def foldl_max_filter by simp
qed

lemma best_ratio_range:
  assumes "scores_in_range L"
  shows "0 \<le> best_ratio L ws keyword \<and> best_ratio L ws keyword \<le> 100"
proof -
  let ?S = "set (0 # map (\<lambda>w. ratio L w keyword) (filter (\<lambda>w. length w > 2 \<and> length keyword > 2) ws))"
  have fin: "finite ?S" and ne: "?S \<noteq> {}" by auto
  have "\<forall>x \<in> ?S. 0 \<le> x \<and> x \<le> 100"
    using assms by (auto simp: scores_in_range_def)
  moreover have "Max ?S \<in> ?S" using fin ne by (rule Max_in)
  ultimately show ?thesis unfolding best_ratio_def by blast
qed

lemma word_scores_range:
  assumes "scores_in_range L" and "x \<in> set (word_scores L (remdups ws) ks)"
  shows "0 \<le> x \<and> x \<le> 100"
  using assms best_ratio_range[OF assms(1)]
  by (auto simp: word_scores_def best_match_eq)

lemma phrase_scores_range:
  assumes "scores_in_range L" and "x \<in> set (phrase_scores L msg ks)"
  shows "0 \<le> x \<and> x \<le> 100"
  using assms by (auto simp: phrase_scores_def scores_in_range_def)

lemma calculate_intent_score_range:
  assumes "scores_in_range L"
  shows "0 \<le> calculate_intent_score L msg ks \<and> calculate_intent_score L msg ks \<le> 100"
proof (cases "word_scores L (remdups (split msg)) ks @ phrase_scores L msg ks = []")
  case True
  then show ?thesis by (simp add: calculate_intent_score_def Let_def)
next
  case False
  let ?xs = "word_scores L (remdups (split msg)) ks @ phrase_scores L msg ks"
  have "Max (set ?xs) \<in> set ?xs" using False by (intro Max_in) auto
  then have "0 \<le> Max (set ?xs) \<and> Max (set ?xs) \<le> 100"
    using word_scores_range[OF assms] phrase_scores_range[OF assms] by (metis Un_iff set_append)
  with False show ?thesis by (simp add: calculate_intent_score_def Let_def)
qed

lemma calculate_intent_score_empty: "calculate_intent_score L msg [] = 0"
  by (simp add: calculate_intent_score_def word_scores_def phrase_scores_def)

lemma keyword_boost_le: "score \<le> 100 \<Longrightarrow> keyword_boost msg score k \<le> 100"
  by (simp add: keyword_boost_def)

lemma foldl_keyword_boost_le: "score \<le> 100 \<Longrightarrow> foldl (keyword_boost msg) score ks \<le> 100"
  by (induction ks arbitrary: score) (simp_all add: keyword_boost_le)

lemma foldl_keyword_boost_word:
  assumes "k \<in> set ks" and "py_in ('' '' @ k @ '' '') ('' '' @ msg @ '' '')"
  shows "100 \<le> foldl (keyword_boost msg) score ks"
  using assms(1)
proof (induction ks arbitrary: score)
  case Nil
  then show ?case by simp
next
  case (Cons a ks)
  show ?case
  proof (cases "a = k")
    case True
    have "100 \<le> keyword_boost msg score k"
      using assms(2) by (simp add: keyword_boost_def)
    also have "\<dots> \<le> foldl (keyword_boost msg) (keyword_boost msg score k) ks"
      by (rule foldl_keyword_boost_ge)
    finally show ?thesis using True by simp
  next
    case False
    with Cons.prems have "k \<in> set ks" by simp
    then show ?thesis using Cons.IH by simp
  qed
qed

lemma foldl_keyword_boost_part:
  assumes "k \<in> set ks" and "length k > 3" and "py_in k msg"
  shows "90 \<le> foldl (keyword_boost msg) score ks"
  using assms(1)
proof (induction ks arbitrary: score)
  case Nil
  then show ?case by simp
next
  case (Cons a ks)
  show ?case
  proof (cases "a = k")
    case True
    have "90 \<le> keyword_boost msg score k"
      using assms(2,3) by (auto simp: keyword_boost_def le_max_iff_disj simp del: py_in.simps)
    also have "\<dots> \<le> foldl (keyword_boost msg) (keyword_boost msg score k) ks"
      by (rule foldl_keyword_boost_ge)
    finally show ?thesis using True by simp
  next
    case False
    with Cons.prems have "k \<in> set ks" by simp
    then show ?thesis using Cons.IH by simp
  qed
qed

lemma first_max_mem: "first_max b xs \<in> set (b # xs)"
  by (induction xs arbitrary: b) (auto split: if_splits)

lemma max_key_mem: "scores \<noteq> [] \<Longrightarrow> max_key scores \<in> fst ` set scores"
  using first_max_mem[of "hd scores" "tl scores"]
  by (cases scores) (auto simp: max_key_def)

lemma intent_scores_keys: "map fst (intent_scores L msg) = map fst INTENT_KEYWORDS"
  by (simp add: intent_scores_def case_prod_unfold comp_def)

lemma max_key_not_unknown: "max_key (intent_scores L msg) \<noteq> ''unknown''"
proof -
  have ne: "intent_scores L msg \<noteq> []"
    by (simp add: intent_scores_def INTENT_KEYWORDS_def)
  have "fst ` set (intent_scores L msg) = set (map fst INTENT_KEYWORDS)"
    using intent_scores_keys[of L msg] by (metis set_map)
  moreover have "''unknown'' \<notin> set (map fst INTENT_KEYWORDS)"
    by (simp add: INTENT_KEYWORDS_def)
  ultimately show ?thesis using max_key_mem[OF ne] by metis
qed

lemma scores_punct:
  "intent_scores exact_lib (normalize_text ''?!'') =
     [(''greeting'', 0), (''farewell'', 0), (''hours_query'', 0), (''branch_query'', 0),
      (''about'', 0), (''faq_query'', 0), (''menu_query'', 0)]"
  by code_simp

lemma normalize_punct: "normalize_text ''?!'' = ''''"
  by code_simp

lemma scores_what_time_open:
  "intent_scores exact_lib (normalize_text ''What time open?'') =
     [(''greeting'', 0), (''farewell'', 0), (''hours_query'', 100), (''branch_query'', 0),
      (''about'', 0), (''faq_query'', 0), (''menu_query'', 100)]"
  by code_simp

lemma scores_what_time:
  "intent_scores exact_lib (normalize_text ''what time'') =
     [(''greeting'', 0), (''farewell'', 0), (''hours_query'', 100), (''branch_query'', 0),
      (''about'', 0), (''faq_query'', 0), (''menu_query'', 100)]"
  by code_simp

lemma scores_open:
  "intent_scores exact_lib (normalize_text ''open'') =
     [(''greeting'', 0), (''farewell'', 0), (''hours_query'', 100), (''branch_query'', 0),
      (''about'', 0), (''faq_query'', 0), (''menu_query'', 0)]"
  by code_simp

lemma hours_words_what_time_open:
  "list_ex (\<lambda>w. py_in w (normalize_text ''What time open?'')) [''open'', ''close'', ''timing'', ''hour'']"
  by code_simp

lemma hours_words_what_time:
  "\<not> list_ex (\<lambda>w. py_in w (normalize_text ''what time'')) [''open'', ''close'', ''timing'', ''hour'']"
  by code_simp

section \<open>Properties of the menu search\<close>

lemma and_then_Inr [simp]: "and_then (Inr x) f = f x"
  by (simp add: and_then_def)

lemma and_then_Inl [simp]: "and_then (Inl e) f = Inl e"
  by (simp add: and_then_def)

lemma for_each_append:
  "for_each body (xs @ ys) st = and_then (for_each body xs st) (for_each body ys)"
  by (induction xs arbitrary: st) (auto split: sum.splits)

lemma for_each_concat:
  "for_each (\<lambda>x. for_each body (f x)) xs st = for_each body (concat (map f xs)) st"
proof (induction xs arbitrary: st)
  case Nil
  show ?case by simp
next
  case (Cons x xs)
  show ?case
    by (cases "for_each body (f x) st") (simp_all add: for_each_append Cons)
qed

lemma strings_effect_Nil: "strings_effect name [] st = st"
  by (simp add: strings_effect_def)

lemma strings_effect_append:
  "strings_effect name ys (strings_effect name xs st) = strings_effect name (xs @ ys) st"
  by (auto simp: strings_effect_def fun_eq_iff)

lemma add_candidate_eq:
  "add_candidate s name st =
     (if hashable s then Inr (strings_effect name [s] st) else Inl TypeError)"
  by (auto simp: add_candidate_def strings_effect_def)

lemma add_all_append:
  "and_then (add_all name xs st) (add_all name ys) = add_all name (xs @ ys) st"
  by (simp add: add_all_def strings_effect_append)

lemma add_all_Nil: "add_all name [] st = Inr st"
  by (simp add: add_all_def strings_effect_Nil)

lemma add_variant_eq: "add_variant L name v st = add_all name (variant_strings L name v) st"
  by (simp add: add_variant_def variant_strings_def add_all_def add_candidate_eq strings_effect_Nil
      split: option.splits)

lemma add_flavour_eq: "add_flavour L name f st = add_all name (flavour_strings L name f) st"
  by (simp add: add_flavour_def flavour_strings_def add_all_def add_candidate_eq strings_effect_Nil
        strings_effect_append
      split: option.splits json.splits)

lemma for_each_add_all:
  "for_each (\<lambda>x. add_all name (f x)) xs st = add_all name (concat (map f xs)) st"
proof (induction xs arbitrary: st)
  case Nil
  show ?case by (simp add: add_all_Nil)
next
  case (Cons x xs)
  have "for_each (\<lambda>x. add_all name (f x)) (x # xs) st
        = and_then (add_all name (f x) st) (add_all name (concat (map f xs)))"
    by (cases "add_all name (f x) st") (simp_all add: Cons)
  then show ?case by (simp add: add_all_append)
qed

lemma for_each_variants:
  "for_each (add_variant L name) vs st = add_all name (concat (map (variant_strings L name) vs)) st"
proof -
  have "add_variant L name = (\<lambda>v. add_all name (variant_strings L name v))"
    by (rule ext)+ (simp add: add_variant_eq)
  then show ?thesis by (simp add: for_each_add_all)
qed

lemma for_each_flavours:
  "for_each (add_flavour L name) fs st = add_all name (concat (map (flavour_strings L name) fs)) st"
proof -
  have "add_flavour L name = (\<lambda>f. add_all name (flavour_strings L name f))"
    by (rule ext)+ (simp add: add_flavour_eq)
  then show ?thesis by (simp add: for_each_add_all)
qed

lemma add_item_eq: "add_item L item st = add_all (item_name item) (item_strings L item) st"
proof (cases "get_field item ''name''")
  case None
  then show ?thesis by (simp add: add_item_def item_strings_def add_all_Nil)
next
  case (Some name)
  let ?d = "case get_field item ''description'' of
              Some desc \<Rightarrow> if truthy desc then [desc] else [] | None \<Rightarrow> []"
  let ?v = "case get_field item ''variants'' of
              Some (JList vs) \<Rightarrow> concat (map (variant_strings L name) vs) | _ \<Rightarrow> []"
  let ?f = "case get_field item ''flavours'' of
              Some (JList fs) \<Rightarrow> concat (map (flavour_strings L name) fs) | _ \<Rightarrow> []"
  have n: "\<And>st. add_candidate name name st = add_all name [name] st"
    by (simp add: add_candidate_eq add_all_def)
  have d: "\<And>st. (case get_field item ''description'' of
                Some desc \<Rightarrow> if truthy desc then add_candidate desc name st else Inr st
              | None \<Rightarrow> Inr st) = add_all name ?d st"
    by (simp add: add_candidate_eq add_all_def strings_effect_Nil split: option.splits)
  have v: "\<And>st. (case get_field item ''variants'' of
                Some (JList vs) \<Rightarrow> for_each (add_variant L name) vs st
              | _ \<Rightarrow> Inr st) = add_all name ?v st"
    by (simp add: for_each_variants add_all_Nil split: option.splits json.splits)
  have f: "\<And>st. (case get_field item ''flavours'' of
                Some (JList fs) \<Rightarrow> for_each (add_flavour L name) fs st
              | _ \<Rightarrow> Inr st) = add_all name ?f st"
    by (simp add: for_each_flavours add_all_Nil split: option.splits json.splits)
  have "add_item L item st
        = and_then (add_all name [name] st) (\<lambda>st.
          and_then (add_all name ?d st) (\<lambda>st.
          and_then (add_all name ?v st) (add_all name ?f)))"
    unfolding add_item_def Some option.case n d v f ..
  also have "\<dots> = add_all name ([name] @ ?d @ ?v @ ?f) st"
    by (simp only: add_all_append)
  finally show ?thesis
    using Some by (simp add: item_strings_def item_name_def)
qed

lemma build_corpus_raw:
  "build_corpus L (JDict categories) = for_each (add_item L) (raw_items categories) ([], Map.empty)"
proof -
  have "add_category L
        = (\<lambda>entry. for_each (add_item L) (case snd entry of JList items \<Rightarrow> items | _ \<Rightarrow> []))"
    by (rule ext)+ (simp add: add_category_def split: json.splits)
  then show ?thesis
    by (simp add: build_corpus_def raw_items_def for_each_concat)
qed

lemma for_each_add_item:
  "for_each (add_item L) items st =
     (if \<forall>item \<in> set items. list_all hashable (item_strings L item)
      then Inr (items_effect L items st) else Inl TypeError)"
proof (induction items arbitrary: st)
  case Nil
  show ?case by (simp add: items_effect_def)
next
  case (Cons item items)
  have h: "add_item L item st =
             (if list_all hashable (item_strings L item)
              then Inr (strings_effect (item_name item) (item_strings L item) st)
              else Inl TypeError)"
    by (simp add: add_item_eq add_all_def)
  show ?case
    unfolding for_each.simps h using Cons by (auto simp: items_effect_def)
qed

lemma fst_items_effect:
  "fst (items_effect L items st) = fst st @ concat (map (item_strings L) items)"
  unfolding items_effect_def
  by (induction items arbitrary: st) (simp_all add: strings_effect_def)

lemma snd_items_effect:
  "snd (items_effect L items st) k =
     (let xs = filter (\<lambda>item. k \<in> key_of ` set (item_strings L item)) items
      in if xs = [] then snd st k else Some (item_name (last xs)))"
proof (induction items rule: rev_induct)
  case Nil
  show ?case by (simp add: items_effect_def)
next
  case (snoc item items)
  have step: "items_effect L (items @ [item]) st
        = strings_effect (item_name item) (item_strings L item) (items_effect L items st)"
    by (simp add: items_effect_def)
  show ?case
  proof (cases "k \<in> key_of ` set (item_strings L item)")
    case True
    then show ?thesis
      unfolding step by (simp add: strings_effect_def)
  next
    case False
    then show ?thesis
      unfolding step using snoc by (simp add: strings_effect_def)
  qed
qed

lemma item_strings_no_name: "get_field item ''name'' = None \<Longrightarrow> item_strings L item = []"
  by (simp add: item_strings_def)

lemma catalog_items_raw:
  "catalog_items (JDict categories)
   = filter (\<lambda>item. get_field item ''name'' \<noteq> None) (raw_items categories)"
  unfolding catalog_items_def raw_items_def
  by (induction categories) (auto split: json.splits)

lemma concat_item_strings_filter:
  "concat (map (item_strings L) (filter (\<lambda>item. get_field item ''name'' \<noteq> None) items))
   = concat (map (item_strings L) items)"
  by (induction items) (auto simp: item_strings_no_name)

lemma filter_contributes_filter:
  "filter (\<lambda>item. k \<in> key_of ` set (item_strings L item))
     (filter (\<lambda>item. get_field item ''name'' \<noteq> None) items)
   = filter (\<lambda>item. k \<in> key_of ` set (item_strings L item)) items"
  by (induction items) (auto simp: item_strings_no_name)

lemma hashable_menu_raw:
  "hashable_menu L (JDict categories)
   \<longleftrightarrow> (\<forall>item \<in> set (raw_items categories). list_all hashable (item_strings L item))"
proof -
  have "\<And>item. get_field item ''name'' = None \<Longrightarrow> list_all hashable (item_strings L item)"
    by (simp add: item_strings_no_name)
  then show ?thesis
    unfolding hashable_menu_def catalog_items_raw list_all_iff by auto
qed

text \<open>The corpus of a menu that is a dictionary.\<close>

lemma build_corpus_eq:
  "build_corpus L (JDict categories) =
     (if hashable_menu L (JDict categories)
      then Inr (concat (map (item_strings L) (catalog_items (JDict categories))),
                \<lambda>k. let xs = filter (\<lambda>item. k \<in> key_of ` set (item_strings L item))
                                  (catalog_items (JDict categories))
                    in if xs = [] then None else Some (item_name (last xs)))
      else Inl TypeError)"
proof (cases "hashable_menu L (JDict categories)")
  case False
  then have "\<not> (\<forall>item \<in> set (raw_items categories). list_all hashable (item_strings L item))"
    by (simp add: hashable_menu_raw)
  then have "build_corpus L (JDict categories) = Inl TypeError"
    unfolding build_corpus_raw for_each_add_item by simp
  with False show ?thesis by simp
next
  case True
  let ?st = "items_effect L (raw_items categories) ([], Map.empty)"
  have "build_corpus L (JDict categories) = Inr ?st"
    using True by (simp add: build_corpus_raw for_each_add_item hashable_menu_raw)
  moreover have "fst ?st = concat (map (item_strings L) (catalog_items (JDict categories)))"
    by (simp only: fst_items_effect catalog_items_raw concat_item_strings_filter fst_conv append_Nil)
  moreover have "snd ?st = (\<lambda>k. let xs = filter (\<lambda>item. k \<in> key_of ` set (item_strings L item))
                                  (catalog_items (JDict categories))
                    in if xs = [] then None else Some (item_name (last xs)))"
    by (rule ext) (simp only: snd_items_effect catalog_items_raw filter_contributes_filter snd_conv)
  ultimately show ?thesis
    using True by (metis prod.collapse)
qed

lemma extractOne_SomeD:
  assumes "extractOne L q cs = Some (m, sc)"
  shows "m \<in> set cs"
proof -
  let ?bl = "filter (\<lambda>cs. snd cs \<ge> 0) (map (\<lambda>c. (c, the (scorer L q c))) cs)"
  from assms obtain b bs where bl: "?bl = b # bs" and r: "first_max b bs = (m, sc)"
    by (auto simp: extractOne_def split: if_splits list.splits)
  have "first_max b bs \<in> set (b # bs)" by (rule first_max_mem)
  then have "(m, sc) \<in> set ?bl" using bl r by simp
  then show ?thesis by auto
qed

lemma extractOne_Nil: "extractOne L q [] = None"
  by (simp add: extractOne_def)

lemma build_corpus_not_dict: "(\<forall>categories. menu \<noteq> JDict categories) \<Longrightarrow> build_corpus L menu = Inl AttributeError"
  by (cases menu) (simp_all add: build_corpus_def)

lemma contributes_fun:
  "contributes L m = (\<lambda>item. key_of m \<in> key_of ` set (item_strings L item))"
  by (rule ext) (simp add: contributes_def)

lemma search_menu_eq:
  assumes "hashable_menu L (JDict categories)"
  shows "search_menu L q (JDict categories) =
     Inr (let corpus = concat (map (item_strings L) (catalog_items (JDict categories))) in
          case extractOne L q corpus of
            None \<Rightarrow> JNull
          | Some (m, sc) \<Rightarrow>
              if 60 \<le> sc
              then item_name (last (filter (contributes L m) (catalog_items (JDict categories))))
              else JNull)"
proof -
  let ?corpus = "concat (map (item_strings L) (catalog_items (JDict categories)))"
  show ?thesis
  proof (cases "extractOne L q ?corpus")
    case None
    then show ?thesis
      using assms by (simp add: search_menu_def build_corpus_eq Let_def)
  next
    case (Some p)
    obtain m sc where p: "p = (m, sc)" by (cases p)
    have mem: "m \<in> set ?corpus" using Some p by (auto dest: extractOne_SomeD)
    then obtain item where item: "item \<in> set (catalog_items (JDict categories))"
        and m: "m \<in> set (item_strings L item)"
      by auto
    then have "filter (\<lambda>item. key_of m \<in> key_of ` set (item_strings L item))
                 (catalog_items (JDict categories)) \<noteq> []"
      by (auto simp: filter_empty_conv)
    moreover have "?corpus \<noteq> []" using mem by (metis empty_iff list.set(1))
    ultimately show ?thesis
      using assms Some p
      by (simp add: search_menu_def build_corpus_eq Let_def contributes_fun del: concat_eq_Nil_conv)
  qed
qed

lemma search_menu_InrD:
  assumes "search_menu L q menu = Inr r"
  shows "\<exists>categories. menu = JDict categories \<and> hashable_menu L menu"
proof -
  have "\<exists>categories. menu = JDict categories"
  proof (rule ccontr)
    assume "\<not> (\<exists>categories. menu = JDict categories)"
    then have "build_corpus L menu = Inl AttributeError"
      by (intro build_corpus_not_dict) simp
    then have "search_menu L q menu = Inl AttributeError"
      by (simp add: search_menu_def)
    with assms show False by simp
  qed
  then obtain categories where m: "menu = JDict categories" by blast
  have "hashable_menu L (JDict categories)"
    using assms unfolding m search_menu_def build_corpus_eq by (auto split: if_splits)
  with m show ?thesis by blast
qed

lemma spicy_search: "search_menu exact_lib ''spicy'' spicy_menu = Inr (JStr ''Wings'')"
  by code_simp

lemma spicy_extract:
  "extractOne exact_lib ''spicy'' (concat (map (item_strings exact_lib) (catalog_items spicy_menu)))
   = Some (JStr ''spicy'', 100)"
  by code_simp

lemma add_item_skip: "get_field item ''name'' = None \<Longrightarrow> add_item L item st = Inr st"
  by (simp add: add_item_def)

lemma get_field_not_dict: "(\<forall>kvs. item \<noteq> JDict kvs) \<Longrightarrow> get_field item k = None"
  by (cases item) (simp_all add: get_field_def)

lemma spicy_hashable:
  "hashable_menu exact_lib (JDict [(''burgers'',
       JList [JDict [(''name'', JStr ''Zinger Burger''), (''flavours'', JList [JStr ''spicy''])],
              JStr ''deal of the day'',
              JDict [(''name'', JStr ''Wings''),
                     (''flavours'', JList [JDict [(''name'', JStr ''spicy'')]])]])])"
  by code_simp

lemma pizza_extract:
  "extractOne exact_lib ''pizza'' (concat (map (item_strings exact_lib) (catalog_items spicy_menu)))
   = Some (JStr ''Zinger Burger'', 0)"
  by code_simp

section \<open>Properties of the replies\<close>

lemma run_body_returned: "run_body (xs @ Some r # ys) = run_body (xs @ [Some r])"
proof (induction xs)
  case Nil
  show ?case by simp
next
  case (Cons x xs)
  then show ?case by (cases x) simp_all
qed

lemma statements_to_598_last:
  "\<exists>xs. statements_to_598 V L intent user_msg data = xs @ [Some (Inr (JStr fallback))]"
  unfolding statements_to_598_def Let_def
  by (metis append_Cons append_Nil)

lemma respond_eq: "respond V L intent user_msg data = respond_to_598 V L intent user_msg data"
proof -
  obtain xs where xs: "statements_to_598 V L intent user_msg data = xs @ [Some (Inr (JStr fallback))]"
    using statements_to_598_last by blast
  show ?thesis
    unfolding respond_def respond_to_598_def xs
    using run_body_returned[of xs "Inr (JStr fallback)"] by simp
qed

lemma statements_to_598_later_block:
  "statements_to_598 (V\<lparr>later_block := b\<rparr>) L intent user_msg data
   = statements_to_598 V L intent user_msg data"
  by (simp add: statements_to_598_def menu_reply_def branch_reply_def hours_reply_def
        about_reply_def random_choice_def
      cong: sum.case_cong option.case_cong if_cong)

lemma respond_unhandled:
  assumes "intent \<notin> set handled_intents"
  shows "respond_to_598 V L intent user_msg data = Inr (JStr fallback)"
  using assms
  by (simp add: respond_to_598_def statements_to_598_def when_intent_def handled_intents_def Let_def)

lemma detect_unknown: "detect_intent exact_lib ''aaa bbb ccc ddd eee'' = ''unknown''"
  by code_simp

section \<open>Properties of the FAQ search\<close>

lemma first_max_split: "\<exists>ys zs. max_split (first_max b xs) ys zs (b # xs)"
proof (induction xs arbitrary: b)
  case Nil
  have "max_split (first_max b []) [] [] [b]" by (simp add: max_split_def)
  then show ?case by blast
next
  case (Cons kv kvs)
  show ?case
  proof (cases "snd kv > snd b")
    case True
    from Cons[of kv] obtain ys zs where s: "max_split (first_max kv kvs) ys zs (kv # kvs)"
      by blast
    have "kv \<in> set (kv # kvs)" by simp
    then have "snd kv \<le> snd (first_max kv kvs)"
      using s unfolding max_split_def by fastforce
    then have "snd b < snd (first_max kv kvs)" using True by simp
    then have "max_split (first_max kv kvs) (b # ys) zs (b # kv # kvs)"
      using s by (simp add: max_split_def)
    then have "max_split (first_max b (kv # kvs)) (b # ys) zs (b # kv # kvs)"
      using True by simp
    then show ?thesis by blast
  next
    case False
    from Cons[of b] obtain ys zs where s: "max_split (first_max b kvs) ys zs (b # kvs)"
      by blast
    show ?thesis
    proof (cases ys)
      case Nil
      then have "max_split (first_max b kvs) [] (kv # zs) (b # kv # kvs)"
        using s False by (auto simp: max_split_def)
      then have "max_split (first_max b (kv # kvs)) [] (kv # zs) (b # kv # kvs)"
        using False by simp
      then show ?thesis by blast
    next
      case (Cons y ys')
      then have yb: "y = b" and k: "kvs = ys' @ first_max b kvs # zs"
        using s by (auto simp: max_split_def)
      have "snd b < snd (first_max b kvs)"
        using s Cons yb by (simp add: max_split_def)
      then have "snd kv < snd (first_max b kvs)" using False by simp
      then have "max_split (first_max b kvs) (b # kv # ys') zs (b # kv # kvs)"
        using s k Cons yb by (auto simp: max_split_def)
      then have "max_split (first_max b (kv # kvs)) (b # kv # ys') zs (b # kv # kvs)"
        using False by simp
      then show ?thesis by blast
    qed
  qed
qed

lemma first_max_hd:
  assumes "\<exists>p \<in> set xs. snd b < snd p"
  shows "first_max b xs = hd (filter (\<lambda>p. snd p = Max (snd ` set xs)) xs)"
proof -
  let ?m = "first_max b xs"
  from first_max_split[of b xs] obtain ys zs where s: "max_split ?m ys zs (b # xs)"
    by blast
  then have eq: "b # xs = ys @ ?m # zs"
    and l: "\<forall>y \<in> set ys. snd y < snd ?m"
    and r: "\<forall>z \<in> set zs. snd z \<le> snd ?m"
    by (simp_all add: max_split_def)
  have all: "\<forall>p \<in> set (b # xs). snd p \<le> snd ?m"
    unfolding eq using l r by auto
  from assms obtain p where p: "p \<in> set xs" "snd b < snd p" by blast
  then have "snd p \<le> snd ?m" using all by simp
  with p have bm: "snd b < snd ?m" by simp
  have "ys \<noteq> []"
  proof
    assume e: "ys = []"
    have "b # xs = ?m # zs" using eq unfolding e append_Nil .
    then have "hd (b # xs) = hd (?m # zs)" by (rule arg_cong)
    then have "b = ?m" by (simp only: list.sel)
    with bm show False by simp
  qed
  then obtain y ys' where ys: "ys = y # ys'" by (cases ys) auto
  have "b # xs = y # (ys' @ ?m # zs)" using eq unfolding ys append_Cons .
  then have "tl (b # xs) = tl (y # (ys' @ ?m # zs))" by (rule arg_cong)
  then have xs: "xs = ys' @ ?m # zs" by (simp only: list.sel)
  have mx: "Max (snd ` set xs) = snd ?m"
  proof (rule Max_eqI)
    show "finite (snd ` set xs)" by simp
    show "\<And>v. v \<in> snd ` set xs \<Longrightarrow> v \<le> snd ?m" using all by auto
    have "?m \<in> set (ys' @ ?m # zs)" by simp
    then have "?m \<in> set xs" using xs by simp
    then show "snd ?m \<in> snd ` set xs" by (rule imageI)
  qed
  have "filter (\<lambda>p. snd p = snd ?m) ys' = []"
    using l ys by (auto simp: filter_empty_conv)
  then have "filter (\<lambda>p. snd p = snd ?m) (ys' @ ?m # zs)
             = ?m # filter (\<lambda>p. snd p = snd ?m) zs"
    by simp
  then have "hd (filter (\<lambda>p. snd p = snd ?m) (ys' @ ?m # zs)) = ?m" by simp
  then have "hd (filter (\<lambda>p. snd p = Max (snd ` set xs)) (ys' @ ?m # zs)) = ?m"
    unfolding mx .
  then show ?thesis using xs by simp
qed

lemma first_max_le:
  assumes "\<forall>p \<in> set (b # xs). snd p \<le> c"
  shows "snd (first_max b xs) \<le> c"
  using assms first_max_mem[of b xs] by blast

lemma faq_step_not_dict: "\<not> is_dict q \<Longrightarrow> faq_step L u q best = Inr best"
  by (cases q) (simp_all add: faq_step_def is_dict_def)

lemma faq_step_dict:
  assumes "is_dict q" and "faq_question q \<noteq> None"
  shows "faq_step L u q best =
     Inr (if faq_score L u q > snd best then (faq_answer q, faq_score L u q) else best)"
proof -
  from assms(1) obtain kvs where q: "q = JDict kvs"
    by (cases q) (simp_all add: is_dict_def)
  from assms(2) obtain s where s: "dict_get kvs ''question'' (JStr '''') = JStr s"
    unfolding q faq_question_def by (cases "dict_get kvs ''question'' (JStr '''')") simp_all
  show ?thesis
    unfolding q by (simp add: faq_step_def faq_score_def faq_question_def faq_answer_def s Let_def)
qed

lemma faq_loop:
  assumes "\<forall>q \<in> set qs. is_dict q \<longrightarrow> faq_question q \<noteq> None"
  shows "for_each (faq_step L u) qs best
         = Inr (first_max best (map (\<lambda>q. (faq_answer q, faq_score L u q)) (filter is_dict qs)))"
  using assms
proof (induction qs arbitrary: best)
  case Nil
  show ?case by simp
next
  case (Cons q qs)
  then have rest: "\<forall>q \<in> set qs. is_dict q \<longrightarrow> faq_question q \<noteq> None" by simp
  show ?case
  proof (cases "is_dict q")
    case False
    then show ?thesis
      by (simp add: faq_step_not_dict Cons.IH[OF rest])
  next
    case True
    then have "faq_question q \<noteq> None" using Cons.prems by simp
    with True show ?thesis
      by (simp add: faq_step_dict Cons.IH[OF rest])
  qed
qed

lemma respond_faq:
  "respond V L ''faq_query'' user_msg data = faq_reply L (strip (lower user_msg)) data"
  by (simp add: respond_eq respond_to_598_def statements_to_598_def when_intent_def Let_def)

lemma faq_reply_list:
  assumes "dict_get data ''faq'' (JList []) = JList qs" and "qs \<noteq> []"
    and "\<forall>q \<in> set qs. is_dict q \<longrightarrow> faq_question q \<noteq> None"
  shows "faq_reply L u data =
     Inr (let m = first_max (JNull, 0)
                    (map (\<lambda>q. (faq_answer q, faq_score L u q)) (filter is_dict qs))
          in if snd m > 60 then fst m else JStr faq_no_match)"
  using assms(1,2)
  by (simp add: faq_reply_def Let_def truthy_def py_iter_def faq_loop[OF assms(3)]
        case_prod_unfold)

lemma faq_best:
  fixes L :: lib and u :: string and es :: "json list"
  defines "M \<equiv> Max (set (map (faq_score L u) es))"
  defines "m \<equiv> first_max (JNull, 0) (map (\<lambda>q. (faq_answer q, faq_score L u q)) es)"
  shows "(if snd m > 60 then fst m else JStr faq_no_match)
       = (if es \<noteq> [] \<and> 60 < M then faq_answer (hd (filter (\<lambda>e. faq_score L u e = M) es))
          else JStr faq_no_match)"
proof (cases "es \<noteq> [] \<and> 60 < M")
  case True
  let ?P = "map (\<lambda>q. (faq_answer q, faq_score L u q)) es"
  have img: "snd ` set ?P = set (map (faq_score L u) es)" by force
  have "M \<in> set (map (faq_score L u) es)"
    unfolding M_def using True by (intro Max_in) auto
  then obtain e where e: "e \<in> set es" "faq_score L u e = M" by auto
  then have ex: "\<exists>p \<in> set ?P. snd (JNull, 0::int) < snd p"
    using True by force
  have "m = hd (filter (\<lambda>p. snd p = Max (snd ` set ?P)) ?P)"
    unfolding m_def by (rule first_max_hd[OF ex])
  also have "\<dots> = hd (filter (\<lambda>p. snd p = M) ?P)"
    unfolding img M_def ..
  also have "filter (\<lambda>p. snd p = M) ?P
             = map (\<lambda>q. (faq_answer q, faq_score L u q)) (filter (\<lambda>e. faq_score L u e = M) es)"
    by (simp add: filter_map comp_def)
  finally have m: "m = hd (map (\<lambda>q. (faq_answer q, faq_score L u q))
                            (filter (\<lambda>e. faq_score L u e = M) es))" .
  have ne: "filter (\<lambda>e. faq_score L u e = M) es \<noteq> []"
    using e by (auto simp: filter_empty_conv)
  then have m': "m = (faq_answer (hd (filter (\<lambda>e. faq_score L u e = M) es)),
                     faq_score L u (hd (filter (\<lambda>e. faq_score L u e = M) es)))"
    unfolding m by (simp add: hd_map)
  have "hd (filter (\<lambda>e. faq_score L u e = M) es) \<in> set (filter (\<lambda>e. faq_score L u e = M) es)"
    using ne by (rule hd_in_set)
  then have "faq_score L u (hd (filter (\<lambda>e. faq_score L u e = M) es)) = M" by simp
  then have "snd m = M" and "fst m = faq_answer (hd (filter (\<lambda>e. faq_score L u e = M) es))"
    unfolding m' by simp_all
  with True show ?thesis by simp
next
  case False
  let ?P = "map (\<lambda>q. (faq_answer q, faq_score L u q)) es"
  have "\<forall>p \<in> set ((JNull, 0) # ?P). snd p \<le> 60"
  proof (cases "es = []")
    case True
    then show ?thesis by simp
  next
    case ne: False
    then have "M \<le> 60" using False by simp
    moreover have "\<forall>e \<in> set es. faq_score L u e \<le> M"
      unfolding M_def by (auto intro: Max_ge)
    ultimately show ?thesis by fastforce
  qed
  then have "snd m \<le> 60" unfolding m_def by (rule first_max_le)
  with False show ?thesis by auto
qed

lemma two_faqs_list:
  "dict_get two_faqs ''faq'' (JList []) =
     JList [JDict [(''question'', JStr ''Do you deliver?''), (''answer'', JStr ''Yes.'')],
            JInt 7,
            JDict [(''question'', JStr ''do you deliver?''), (''answer'', JStr ''No.'')]]"
  by (simp add: dict_get_def two_faqs_def)

lemma two_faqs_questions:
  "\<forall>q \<in> set [JDict [(''question'', JStr ''Do you deliver?''), (''answer'', JStr ''Yes.'')],
            JInt 7,
            JDict [(''question'', JStr ''do you deliver?''), (''answer'', JStr ''No.'')]].
     is_dict q \<longrightarrow> faq_question q \<noteq> None"
  by (simp add: is_dict_def faq_question_def dict_get_def)

lemma two_faqs_best:
  "(let u = strip (lower ''Do you deliver?'');
        es = filter is_dict
               [JDict [(''question'', JStr ''Do you deliver?''), (''answer'', JStr ''Yes.'')],
                JInt 7,
                JDict [(''question'', JStr ''do you deliver?''), (''answer'', JStr ''No.'')]];
        M = Max (set (map (faq_score exact_lib u) es))
    in if es \<noteq> [] \<and> 60 < M
       then faq_answer (hd (filter (\<lambda>e. faq_score exact_lib u e = M) es))
       else JStr faq_no_match) = JStr ''Yes.''"
  by code_simp

section \<open>The claims\<close>

text \<open>
  C1.  The claim: a contraction of the table that occurs in the raw text is replaced by
  its expansion, so that the normal form of a text with "what's" contains "what is".
  The code replaces the apostrophe by a space before it consults the table: the text
  "what's up" becomes "what s up", and "what is" does not occur in it.
\<close>

theorem normalize_text_whats_up:
  "normalize_text ''what's up'' = ''what s up''
   \<and> \<not> py_in ''what is'' (normalize_text ''what's up'')"
  by code_simp

text \<open>
  C9.  When the score of the greeting intent exceeds 80, \<open>detect_intent\<close> answers
  "greeting", whatever the other scores are; and the text "Hi there!" is a greeting,
  with any similarity library.
\<close>

theorem detect_intent_greeting_first:
  "(get_score (intent_scores L (normalize_text t)) ''greeting'' > 80
      \<longrightarrow> detect_intent L t = ''greeting'')
   \<and> detect_intent L ''Hi there!'' = ''greeting''"
proof
  show "get_score (intent_scores L (normalize_text t)) ''greeting'' > 80
          \<longrightarrow> detect_intent L t = ''greeting''"
    by (simp add: detect_intent_def Let_def)
next
  let ?m = "normalize_text ''Hi there!''"
  have "100 \<le> calculate_intent_score L ?m
          [''hi'', ''hello'', ''hey'', ''salam'', ''assalam'', ''good morning'',
           ''good afternoon'', ''good evening'', ''greetings'', ''hi there'', ''hello there'']"
    by (rule calculate_intent_score_hit[where keyword = "''hi''"])
       (simp_all add: split_normalize_hi_there)
  then have "100 \<le> get_score (intent_scores L ?m) ''greeting''"
    using intent_score_ge[of L ?m]
    by (simp add: get_score_intent[OF greeting_keywords] order_trans)
  then show "detect_intent L ''Hi there!'' = ''greeting''"
    by (simp add: detect_intent_def Let_def)
qed

theorem detect_intent_greeting_first_witness:
  "get_score (intent_scores exact_lib (normalize_text ''hello'')) ''greeting'' > 80
   \<and> detect_intent exact_lib ''hello'' = ''greeting''"
proof -
  have h: "get_score (intent_scores exact_lib (normalize_text ''hello'')) ''greeting'' > 80"
    by code_simp
  show ?thesis
    using h detect_intent_greeting_first[of exact_lib "''hello''"] by blast
qed

text \<open>
  C6.  With a library whose scores lie between 0 and 100, \<open>calculate_intent_score\<close>
  returns an integer between 0 and 100; 0 for an empty keyword list; 100 when a keyword
  is one of the words of the text; and otherwise the maximum of the best \<open>ratio\<close> of each
  keyword (over words and keywords longer than two characters) and of the
  \<open>partial_ratio\<close> of every keyword of several words.
\<close>

theorem calculate_intent_score_spec:
  assumes "scores_in_range L"
  shows "0 \<le> calculate_intent_score L msg ks \<and> calculate_intent_score L msg ks \<le> 100
     \<and> (ks = [] \<longrightarrow> calculate_intent_score L msg ks = 0)
     \<and> ((\<exists>k \<in> set ks. k \<in> set (split msg)) \<longrightarrow> calculate_intent_score L msg ks = 100)
     \<and> (ks \<noteq> [] \<and> \<not> (\<exists>k \<in> set ks. k \<in> set (split msg)) \<longrightarrow>
          calculate_intent_score L msg ks
          = Max (set (map (best_ratio L (split msg)) ks
                      @ map (partial_ratio L msg) (filter (\<lambda>k. length (split k) > 1) ks))))"
proof -
  have r: "0 \<le> calculate_intent_score L msg ks \<and> calculate_intent_score L msg ks \<le> 100"
    by (rule calculate_intent_score_range[OF assms])
  have e: "ks = [] \<longrightarrow> calculate_intent_score L msg ks = 0"
    by (simp add: calculate_intent_score_empty)
  have h: "(\<exists>k \<in> set ks. k \<in> set (split msg)) \<longrightarrow> calculate_intent_score L msg ks = 100"
    using r calculate_intent_score_hit[of _ ks msg L] by force
  have m: "ks \<noteq> [] \<and> \<not> (\<exists>k \<in> set ks. k \<in> set (split msg)) \<longrightarrow>
          calculate_intent_score L msg ks
          = Max (set (map (best_ratio L (split msg)) ks
                      @ map (partial_ratio L msg) (filter (\<lambda>k. length (split k) > 1) ks)))"
  proof
    assume a: "ks \<noteq> [] \<and> \<not> (\<exists>k \<in> set ks. k \<in> set (split msg))"
    then have "word_scores L (remdups (split msg)) ks = map (best_ratio L (split msg)) ks"
      by (auto simp: word_scores_def best_match_eq)
    moreover have "map (best_ratio L (split msg)) ks \<noteq> []" using a by simp
    ultimately show "calculate_intent_score L msg ks
          = Max (set (map (best_ratio L (split msg)) ks
                      @ map (partial_ratio L msg) (filter (\<lambda>k. length (split k) > 1) ks)))"
      by (simp add: calculate_intent_score_def Let_def phrase_scores_def)
  qed
  from r e h m show ?thesis by blast
qed


theorem calculate_intent_score_spec_witness:
  "scores_in_range exact_lib
   \<and> calculate_intent_score exact_lib ''hi there'' [''hi'', ''hello there''] = 100
   \<and> calculate_intent_score exact_lib ''pizzas'' [] = 0"
proof -
  have r: "scores_in_range exact_lib" by (rule scores_in_range_exact_lib)
  have k: "\<exists>k \<in> set [''hi'', ''hello there'']. k \<in> set (split ''hi there'')"
    by code_simp
  show ?thesis
    using r k calculate_intent_score_spec[OF r, where ks = "[''hi'', ''hello there'']" and msg = "''hi there''"]
      calculate_intent_score_spec[OF r, where ks = "[]" and msg = "''pizzas''"]
    by blast
qed

text \<open>
  C5.  With a library whose scores lie between 0 and 100, and for every intent of the
  table: when a keyword of the intent stands in the normalized text as a word between
  spaces, the score of the intent is 100; when a keyword longer than three characters
  occurs in the normalized text, the score of the intent is at least 90.
\<close>

theorem intent_score_keyword_boost:
  assumes "scores_in_range L" and "(intent, ks) \<in> set INTENT_KEYWORDS"
  shows "((\<exists>k \<in> set ks. py_in ('' '' @ k @ '' '') ('' '' @ normalize_text t @ '' ''))
            \<longrightarrow> get_score (intent_scores L (normalize_text t)) intent = 100)
       \<and> ((\<exists>k \<in> set ks. length k > 3 \<and> py_in k (normalize_text t))
            \<longrightarrow> 90 \<le> get_score (intent_scores L (normalize_text t)) intent)"
proof -
  let ?m = "normalize_text t"
  have g: "get_score (intent_scores L ?m) intent = intent_score L ?m ks"
    by (rule get_score_intent[OF assms(2)])
  have le: "intent_score L ?m ks \<le> 100"
    unfolding intent_score_def
    using calculate_intent_score_range[OF assms(1), of ?m ks] by (intro foldl_keyword_boost_le) simp
  have a: "(\<exists>k \<in> set ks. py_in ('' '' @ k @ '' '') ('' '' @ ?m @ '' '')) \<longrightarrow> intent_score L ?m ks = 100"
    using le foldl_keyword_boost_word[of _ ks ?m "calculate_intent_score L ?m ks"]
    unfolding intent_score_def by force
  have b: "(\<exists>k \<in> set ks. length k > 3 \<and> py_in k ?m) \<longrightarrow> 90 \<le> intent_score L ?m ks"
    using foldl_keyword_boost_part[of _ ks ?m "calculate_intent_score L ?m ks"]
    unfolding intent_score_def by blast
  from a b show ?thesis unfolding g by blast
qed

theorem intent_score_keyword_boost_witness:
  "scores_in_range exact_lib
   \<and> (\<exists>k \<in> set [''hi'', ''hello'', ''hey'', ''salam'', ''assalam'', ''good morning'', ''good afternoon'',
       ''good evening'', ''greetings'', ''hi there'', ''hello there''].
         py_in ('' '' @ k @ '' '') ('' '' @ normalize_text ''Hello!'' @ '' ''))
   \<and> get_score (intent_scores exact_lib (normalize_text ''Hello!'')) ''greeting'' = 100"
proof -
  have r: "scores_in_range exact_lib" by (rule scores_in_range_exact_lib)
  have k: "\<exists>k \<in> set [''hi'', ''hello'', ''hey'', ''salam'', ''assalam'', ''good morning'', ''good afternoon'',
       ''good evening'', ''greetings'', ''hi there'', ''hello there''].
         py_in ('' '' @ k @ '' '') ('' '' @ normalize_text ''Hello!'' @ '' '')"
    by code_simp
  show ?thesis
    using r k intent_score_keyword_boost[OF r greeting_keywords, where t = "''Hello!''"] by blast
qed

text \<open>
  C8.  When the normalized text has at most four words (the empty text and the texts of
  spaces or punctuation only are among them), \<open>detect_intent\<close> does not answer
  "unknown"; when none of the rules before the last one applies, it answers
  "menu_query".
\<close>

theorem detect_intent_short_text:
  assumes "length (split (normalize_text t)) \<le> 4"
  shows "detect_intent L t \<noteq> ''unknown''
     \<and> (let msg = normalize_text t; S = intent_scores L msg in
          \<not> get_score S ''greeting'' > 80
        \<and> \<not> get_score S ''farewell'' > 80
        \<and> \<not> (get_score S ''branch_query'' > 70
              \<and> \<not> get_score S ''menu_query'' > get_score S ''branch_query'')
        \<and> \<not> get_score S ''faq_query'' > 70
        \<and> \<not> (get_score S ''hours_query'' > 70
              \<and> (get_score S ''menu_query'' > 70 \<longrightarrow>
                   list_ex (\<lambda>w. py_in w msg) [''open'', ''close'', ''timing'', ''hour'']))
        \<and> \<not> (get_score S ''about'' > 70 \<and> get_score S ''menu_query'' < 60)
        \<and> \<not> get_score S ''menu_query'' > 50
        \<and> \<not> Max (set (map snd S)) > 50
        \<longrightarrow> detect_intent L t = ''menu_query'')"
proof
  show "detect_intent L t \<noteq> ''unknown''"
    using assms max_key_not_unknown[of L "normalize_text t"]
    by (simp add: detect_intent_def Let_def)
next
  show "let msg = normalize_text t; S = intent_scores L msg in
          \<not> get_score S ''greeting'' > 80
        \<and> \<not> get_score S ''farewell'' > 80
        \<and> \<not> (get_score S ''branch_query'' > 70
              \<and> \<not> get_score S ''menu_query'' > get_score S ''branch_query'')
        \<and> \<not> get_score S ''faq_query'' > 70
        \<and> \<not> (get_score S ''hours_query'' > 70
              \<and> (get_score S ''menu_query'' > 70 \<longrightarrow>
                   list_ex (\<lambda>w. py_in w msg) [''open'', ''close'', ''timing'', ''hour'']))
        \<and> \<not> (get_score S ''about'' > 70 \<and> get_score S ''menu_query'' < 60)
        \<and> \<not> get_score S ''menu_query'' > 50
        \<and> \<not> Max (set (map snd S)) > 50
        \<longrightarrow> detect_intent L t = ''menu_query''"
    using assms by (auto simp: detect_intent_def Let_def)
qed

theorem detect_intent_short_text_witness:
  "length (split (normalize_text ''?!'')) \<le> 4 \<and> detect_intent exact_lib ''?!'' = ''menu_query''"
proof -
  have h: "length (split (normalize_text ''?!'')) \<le> 4"
    by (simp add: normalize_punct split_def)
  show ?thesis
    using h detect_intent_short_text[OF h, of exact_lib]
    by (simp add: Let_def scores_punct get_score_def)
qed


text \<open>
  C3.  When none of the rules for greeting, farewell, branch and FAQ has returned and
  the hours score exceeds 70: if the menu score exceeds 70 too, \<open>detect_intent\<close> answers
  "hours_query" exactly when the normalized text contains "open", "close", "timing" or
  "hour", and otherwise the later rules decide (they answer "menu_query"); if the menu
  score is at most 70, the answer is "hours_query".
\<close>

theorem detect_intent_hours_rule:
  "let msg = normalize_text t; S = intent_scores L msg in
     \<not> get_score S ''greeting'' > 80
   \<and> \<not> get_score S ''farewell'' > 80
   \<and> \<not> (get_score S ''branch_query'' > 70
         \<and> \<not> get_score S ''menu_query'' > get_score S ''branch_query'')
   \<and> \<not> get_score S ''faq_query'' > 70
   \<and> get_score S ''hours_query'' > 70
   \<longrightarrow>
     (get_score S ''menu_query'' > 70 \<longrightarrow>
        (detect_intent L t = ''hours_query''
           \<longleftrightarrow> list_ex (\<lambda>w. py_in w msg) [''open'', ''close'', ''timing'', ''hour''])
      \<and> (\<not> list_ex (\<lambda>w. py_in w msg) [''open'', ''close'', ''timing'', ''hour'']
           \<longrightarrow> detect_intent L t = ''menu_query''))
   \<and> (get_score S ''menu_query'' \<le> 70 \<longrightarrow> detect_intent L t = ''hours_query'')"
  unfolding detect_intent_def Let_def by (auto simp del: list_ex_Nil_iff list_ex_Cons_iff py_in.simps)


theorem detect_intent_hours_rule_witness:
  "detect_intent exact_lib ''What time open?'' = ''hours_query''
   \<and> detect_intent exact_lib ''what time'' = ''menu_query''
   \<and> detect_intent exact_lib ''open'' = ''hours_query''"
  using detect_intent_hours_rule[of "''What time open?''" exact_lib] detect_intent_hours_rule[of "''what time''" exact_lib]
    detect_intent_hours_rule[of "''open''" exact_lib]
    hours_words_what_time_open hours_words_what_time
  by (simp add: Let_def scores_what_time_open scores_what_time scores_open get_score_def
        del: list_ex_Nil_iff list_ex_Cons_iff py_in.simps)

text \<open>
  C2.  The claim: when two items of the catalog contribute the same search string,
  \<open>search_menu\<close> resolves that string to the name of the first of them.  The dictionary
  \<^verbatim>\<open>item_map\<close> is assigned once more for every contributor, so the last one stays: in
  the menu below "spicy" is a flavour of "Zinger Burger" and then of "Wings", and the
  search for "spicy" answers "Wings".
\<close>

theorem search_menu_first_contributor_counterexample:
  "map item_name (filter (contributes exact_lib (JStr ''spicy'')) (catalog_items spicy_menu))
     = [JStr ''Zinger Burger'', JStr ''Wings'']
   \<and> search_menu exact_lib ''spicy'' spicy_menu = Inr (JStr ''Wings'')"
  by code_simp

text \<open>
  C2, as the code has it: when \<open>search_menu\<close> returns and the best match \<open>s\<close> of the
  corpus has a score of at least 60, the result is the name of the last item of the
  catalog, in the order of the loops, that contributes \<open>s\<close>.
\<close>

theorem search_menu_last_contributor:
  assumes "search_menu L q menu = Inr r"
    and "extractOne L q (concat (map (item_strings L) (catalog_items menu))) = Some (s, sc)"
    and "60 \<le> sc"
  shows "filter (contributes L s) (catalog_items menu) \<noteq> []
     \<and> r = item_name (last (filter (contributes L s) (catalog_items menu)))"
proof -
  from search_menu_InrD[OF assms(1)] obtain categories
    where m: "menu = JDict categories" and h: "hashable_menu L (JDict categories)" by blast
  have "s \<in> set (concat (map (item_strings L) (catalog_items menu)))"
    using assms(2) by (rule extractOne_SomeD)
  then have ne: "filter (contributes L s) (catalog_items menu) \<noteq> []"
    by (auto simp: filter_empty_conv contributes_def)
  have "r = item_name (last (filter (contributes L s) (catalog_items menu)))"
    using assms unfolding m search_menu_eq[OF h] by (simp add: Let_def)
  with ne show ?thesis by blast
qed


theorem search_menu_last_contributor_witness:
  "search_menu exact_lib ''spicy'' spicy_menu = Inr (JStr ''Wings'')
   \<and> JStr ''Wings''
       = item_name (last (filter (contributes exact_lib (JStr ''spicy'')) (catalog_items spicy_menu)))"
  using search_menu_last_contributor[OF spicy_search spicy_extract] spicy_search by simp


text \<open>
  C4.  The claim: \<open>search_menu\<close> raises for no text and no catalog value.  The
  assignment \<^verbatim>\<open>item_map[item["name"]] = item["name"]\<close> is outside the \<^verbatim>\<open>try\<close> block and
  raises \<^verbatim>\<open>TypeError\<close> when the name is a list: the item is a dictionary with a name, so
  it is not skipped.
\<close>

theorem search_menu_no_raise_counterexample:
  "search_menu exact_lib ''burger''
     (JDict [(''burgers'', JList [JDict [(''name'', JList [JStr ''Zinger'', JStr ''Burger''])]])])
   = Inl TypeError"
  by code_simp

text \<open>
  C4, as the code has it: for every text and every catalog that is a dictionary whose
  search strings (names, descriptions, flavour names) can be dictionary keys,
  \<open>search_menu\<close> returns.  The result is \<^verbatim>\<open>None\<close> when the corpus is empty, when
  \<^verbatim>\<open>extractOne\<close> gives nothing and when the best score is below 60; otherwise it is the
  name of an item of the catalog.  An entry that is not a dictionary or has no name
  leaves the corpus as it is.
\<close>

theorem search_menu_no_raise:
  assumes "hashable_menu L (JDict categories)"
  shows "\<exists>r. search_menu L q (JDict categories) = Inr r
     \<and> (let corpus = concat (map (item_strings L) (catalog_items (JDict categories))) in
          (corpus = [] \<longrightarrow> r = JNull)
        \<and> (extractOne L q corpus = None \<longrightarrow> r = JNull)
        \<and> (\<forall>m sc. extractOne L q corpus = Some (m, sc) \<and> sc < 60 \<longrightarrow> r = JNull)
        \<and> (\<forall>m sc. extractOne L q corpus = Some (m, sc) \<and> 60 \<le> sc
              \<longrightarrow> r \<in> item_name ` set (catalog_items (JDict categories))))
     \<and> (\<forall>item st. (\<forall>kvs. item \<noteq> JDict kvs) \<or> get_field item ''name'' = None
           \<longrightarrow> add_item L item st = Inr st)"
proof -
  let ?items = "catalog_items (JDict categories)"
  let ?corpus = "concat (map (item_strings L) ?items)"
  define r where "r = (case extractOne L q ?corpus of
              None \<Rightarrow> JNull
            | Some (m, sc) \<Rightarrow>
                if 60 \<le> sc then item_name (last (filter (contributes L m) ?items)) else JNull)"
  have r: "search_menu L q (JDict categories) = Inr r"
    by (simp add: search_menu_eq[OF assms] Let_def r_def)
  have a: "?corpus = [] \<longrightarrow> r = JNull"
  proof
    assume "?corpus = []"
    then have "extractOne L q ?corpus = None" by (simp only: extractOne_Nil)
    then show "r = JNull" by (simp add: r_def)
  qed
  have b: "extractOne L q ?corpus = None \<longrightarrow> r = JNull"
    by (simp add: r_def)
  have c: "\<forall>m sc. extractOne L q ?corpus = Some (m, sc) \<and> sc < 60 \<longrightarrow> r = JNull"
    by (simp add: r_def)
  have d: "\<forall>m sc. extractOne L q ?corpus = Some (m, sc) \<and> 60 \<le> sc \<longrightarrow> r \<in> item_name ` set ?items"
  proof (intro allI impI)
    fix m sc
    assume e: "extractOne L q ?corpus = Some (m, sc) \<and> 60 \<le> sc"
    then have "m \<in> set ?corpus" by (auto dest: extractOne_SomeD)
    then have ne: "filter (contributes L m) ?items \<noteq> []"
      by (auto simp: filter_empty_conv contributes_def)
    then have "last (filter (contributes L m) ?items) \<in> set (filter (contributes L m) ?items)"
      by (rule last_in_set)
    then have "last (filter (contributes L m) ?items) \<in> set ?items" by simp
    then show "r \<in> item_name ` set ?items" using e by (simp add: r_def)
  qed
  have s: "\<forall>item st. (\<forall>kvs. item \<noteq> JDict kvs) \<or> get_field item ''name'' = None
           \<longrightarrow> add_item L item st = Inr st"
    using add_item_skip get_field_not_dict by blast
  show ?thesis
    unfolding Let_def by (rule exI[of _ r]) (intro conjI r a b c d s)
qed


theorem search_menu_no_raise_witness:
  "hashable_menu exact_lib spicy_menu
   \<and> search_menu exact_lib ''pizza'' spicy_menu = Inr JNull
   \<and> search_menu exact_lib ''spicy'' spicy_menu = Inr (JStr ''Wings'')
   \<and> JStr ''Wings'' \<in> item_name ` set (catalog_items spicy_menu)"
  using search_menu_no_raise[OF spicy_hashable, of "''pizza''"] search_menu_no_raise[OF spicy_hashable, of "''spicy''"]
    spicy_hashable pizza_extract spicy_extract spicy_search
  unfolding spicy_menu_def[symmetric] Let_def by auto


text \<open>
  C10.  The claim speaks of six handled intents, every other value of the intent giving
  the fallback text.  The body has a branch for seven intents: with no data at all, each
  of the seven names gets a reply that is not the fallback text, and "unknown" gets it.
\<close>

theorem seven_handled_intents_counterexample:
  "map (\<lambda>intent. respond plain_views exact_lib intent '''' [] = Inr (JStr fallback))
     [''greeting'', ''farewell'', ''menu_query'', ''branch_query'', ''hours_query'',
      ''faq_query'', ''about'', ''unknown'']
   = [False, False, False, False, False, False, False, True]"
  by code_simp


text \<open>
  C10, as the code has it: \<open>get_bot_response\<close> is equal to the function cut after the
  \<^verbatim>\<open>return fallback\<close> of line 598, for every message and data, and for every intent;
  the result does not depend on what the statements after that line do; an intent that
  is none of the seven handled ones, "unknown" among them, gets the fallback text.
\<close>

theorem get_bot_response_ends_at_598:
  "get_bot_response V L user_msg data = get_bot_response_to_598 V L user_msg data
   \<and> respond V L intent user_msg data = respond_to_598 V L intent user_msg data
   \<and> respond (V\<lparr>later_block := b\<rparr>) L intent user_msg data = respond V L intent user_msg data
   \<and> (intent \<notin> set handled_intents \<longrightarrow> respond V L intent user_msg data = Inr (JStr fallback))
   \<and> (detect_intent L user_msg = ''unknown''
        \<longrightarrow> get_bot_response V L user_msg data = Inr (JStr fallback))"
proof -
  have a: "get_bot_response V L user_msg data = get_bot_response_to_598 V L user_msg data"
    by (simp add: get_bot_response_def get_bot_response_to_598_def respond_eq)
  have b: "respond V L intent user_msg data = respond_to_598 V L intent user_msg data"
    by (rule respond_eq)
  have c: "respond (V\<lparr>later_block := b\<rparr>) L intent user_msg data = respond V L intent user_msg data"
    by (simp add: respond_eq respond_to_598_def statements_to_598_later_block)
  have d: "intent \<notin> set handled_intents \<longrightarrow> respond V L intent user_msg data = Inr (JStr fallback)"
    by (simp add: respond_eq respond_unhandled)
  have "''unknown'' \<notin> set handled_intents" by (simp add: handled_intents_def)
  then have e: "detect_intent L user_msg = ''unknown''
        \<longrightarrow> get_bot_response V L user_msg data = Inr (JStr fallback)"
    by (simp add: get_bot_response_def respond_eq respond_unhandled)
  from a b c d e show ?thesis by (intro conjI)
qed


theorem get_bot_response_ends_at_598_witness:
  "''unknown'' \<notin> set handled_intents
   \<and> detect_intent exact_lib ''aaa bbb ccc ddd eee'' = ''unknown''
   \<and> respond plain_views exact_lib ''unknown'' ''aaa bbb ccc ddd eee'' [] = Inr (JStr fallback)
   \<and> get_bot_response plain_views exact_lib ''aaa bbb ccc ddd eee'' [] = Inr (JStr fallback)"
proof -
  have h: "''unknown'' \<notin> set handled_intents" by (simp add: handled_intents_def)
  show ?thesis
    using h detect_unknown
      get_bot_response_ends_at_598[of plain_views exact_lib "''aaa bbb ccc ddd eee''" "[]" "''unknown''"]
    by blast
qed


text \<open>
  C7.  For a FAQ list that is not empty and whose entries have a string as question, the
  FAQ branch of \<open>get_bot_response\<close> scores every entry by \<open>token_set_ratio\<close> of the
  lower-cased message and the lower-cased question; when the highest score exceeds 60 it
  returns the answer of the first entry, in list order, that has the highest score, and
  otherwise the text for no match.  Elements of the list that are not dictionaries are
  passed over.
\<close>

theorem faq_reply_first_best:
  assumes "dict_get data ''faq'' (JList []) = JList qs" and "qs \<noteq> []"
    and "\<forall>q \<in> set qs. is_dict q \<longrightarrow> faq_question q \<noteq> None"
  shows "respond V L ''faq_query'' user_msg data =
     Inr (let u = strip (lower user_msg);
              es = filter is_dict qs;
              M = Max (set (map (faq_score L u) es))
          in if es \<noteq> [] \<and> 60 < M
             then faq_answer (hd (filter (\<lambda>e. faq_score L u e = M) es))
             else JStr faq_no_match)"
  unfolding respond_faq faq_reply_list[OF assms] Let_def
  using faq_best[of L "strip (lower user_msg)" "filter is_dict qs"] by simp

theorem faq_reply_first_best_witness:
  "respond plain_views exact_lib ''faq_query'' ''Do you deliver?'' two_faqs = Inr (JStr ''Yes.'')"
  using faq_reply_first_best[OF two_faqs_list _ two_faqs_questions, of plain_views exact_lib "''Do you deliver?''"]
    two_faqs_best
  by simp

end
